theory Spec2Isabelle
  imports Complex_Main
begin

section \<open>JavaScript values\<close>

text \<open>
  The monitor is JavaScript: controller payloads are parsed JSON, probed with optional
  chaining, and coerced with \<open>String\<close>, \<open>Number\<close> and \<open>Boolean\<close>. Numbers are IEEE doubles;
  the model keeps the finite ones as rationals (every finite double is one) next to the two
  infinities and NaN, with the comparisons of the language (any comparison with NaN is false).
\<close>

datatype jsnum = Fin rat | PosInf | NegInf | NaN

fun num_less :: "jsnum \<Rightarrow> jsnum \<Rightarrow> bool" where
  "num_less NaN b = False"
| "num_less a NaN = False"
| "num_less (Fin a) (Fin b) = (a < b)"
| "num_less (Fin a) PosInf = True"
| "num_less (Fin a) NegInf = False"
| "num_less PosInf b = False"
| "num_less NegInf NegInf = False"
| "num_less NegInf b = True"

definition num_gt :: "jsnum \<Rightarrow> jsnum \<Rightarrow> bool" where
  "num_gt a b = num_less b a"

definition num_ge :: "jsnum \<Rightarrow> jsnum \<Rightarrow> bool" where
  "num_ge a b = (a \<noteq> NaN \<and> b \<noteq> NaN \<and> \<not> num_less a b)"

definition isFinite :: "jsnum \<Rightarrow> bool" where
  "isFinite n = (case n of Fin q \<Rightarrow> True | _ \<Rightarrow> False)"

definition numOfNat :: "nat \<Rightarrow> jsnum" where
  "numOfNat n = Fin (of_nat n)"

text \<open>
  What the language runtime does with text is not part of the repository: printing a
  number, reading a number from a string, and Unicode case mapping. These four operations
  are a parameter of every function that uses them, and every theorem below holds for all
  runtimes.
\<close>

record js_runtime =
  numberToString :: "jsnum \<Rightarrow> string"
  stringToNumber :: "string \<Rightarrow> jsnum"
  toUpperCase :: "string \<Rightarrow> string"
  toLowerCase :: "string \<Rightarrow> string"

datatype json =
  JUndefined
| JNull
| JBool bool
| JNum jsnum
| JStr string
| JArr "json list"
| JObj "(string \<times> json) list"

text \<open>
  An object is the list of its own properties, one value for each key, as \<open>JSON.parse\<close>
  leaves it. \<open>x?.k\<close> is the own property \<open>k\<close> of an object, \<open>undefined\<close> for a missing key
  and for every value that is not an object. (The only inherited property any source
  expression below could reach is \<open>link\<close> on a string, a function; each use tests for a
  boolean, which a function is not.)
\<close>

fun getProp :: "string \<Rightarrow> json \<Rightarrow> json" where
  "getProp k (JObj kvs) = (case map_of kvs k of Some v \<Rightarrow> v | None \<Rightarrow> JUndefined)"
| "getProp k v = JUndefined"

text \<open>\<open>a ?? b\<close>, \<open>Boolean(x)\<close>, \<open>a || b\<close> and \<open>Array.isArray(x)\<close>.\<close>

definition nullish :: "json \<Rightarrow> bool" where
  "nullish v = (v = JUndefined \<or> v = JNull)"

definition coalesce :: "json \<Rightarrow> json \<Rightarrow> json" where
  "coalesce a b = (if nullish a then b else a)"

fun truthy :: "json \<Rightarrow> bool" where
  "truthy JUndefined = False"
| "truthy JNull = False"
| "truthy (JBool b) = b"
| "truthy (JNum n) = (n \<noteq> Fin 0 \<and> n \<noteq> NaN)"
| "truthy (JStr s) = (s \<noteq> [])"
| "truthy (JArr xs) = True"
| "truthy (JObj kvs) = True"

definition orElse :: "json \<Rightarrow> json \<Rightarrow> json" where
  "orElse a b = (if truthy a then a else b)"

fun isArray :: "json \<Rightarrow> bool" where
  "isArray (JArr xs) = True"
| "isArray v = False"

text \<open>
  A coercion can throw: \<open>String(x)\<close> and \<open>Number(x)\<close> (and a template string) ask an object
  for its \<open>toString\<close> and \<open>valueOf\<close> methods, and a parsed object with an own key
  \<open>toString\<close> (never a function) has neither that yields a primitive, which is a TypeError.
  Every function that coerces returns the exception or its value; \<open>bindE\<close> runs the rest of
  a computation on the value and passes the exception on, and \<open>sequenceE\<close> takes the first
  exception of a list of results, in order.
\<close>

datatype js_error = RangeError | TypeError

definition bindE :: "js_error + 'a \<Rightarrow> ('a \<Rightarrow> js_error + 'b) \<Rightarrow> js_error + 'b" where
  "bindE r f = (case r of Inl e \<Rightarrow> Inl e | Inr x \<Rightarrow> f x)"

fun sequenceE :: "(js_error + 'a) list \<Rightarrow> js_error + 'a list" where
  "sequenceE [] = Inr []"
| "sequenceE (r # rs) =
     (case r of
        Inl e \<Rightarrow> Inl e
      | Inr x \<Rightarrow> (case sequenceE rs of Inl e \<Rightarrow> Inl e | Inr xs \<Rightarrow> Inr (x # xs)))"

text \<open>\<open>xs.join(sep)\<close>, \<open>String(x)\<close> and \<open>Number(x)\<close>.\<close>

fun joinWith :: "string \<Rightarrow> string list \<Rightarrow> string" where
  "joinWith sep [] = []"
| "joinWith sep [s] = s"
| "joinWith sep (s # t # ss) = s @ sep @ joinWith sep (t # ss)"

fun toStr :: "js_runtime \<Rightarrow> json \<Rightarrow> js_error + string" where
  "toStr rt JUndefined = Inr ''undefined''"
| "toStr rt JNull = Inr ''null''"
| "toStr rt (JBool b) = Inr (if b then ''true'' else ''false'')"
| "toStr rt (JNum n) = Inr (numberToString rt n)"
| "toStr rt (JStr s) = Inr s"
| "toStr rt (JArr xs) =
     (case sequenceE (map (\<lambda>x. if x = JUndefined \<or> x = JNull then Inr [] else toStr rt x) xs) of
        Inl e \<Rightarrow> Inl e
      | Inr ss \<Rightarrow> Inr (joinWith '','' ss))"
| "toStr rt (JObj kvs) =
     (if map_of kvs ''toString'' \<noteq> None then Inl TypeError else Inr ''[object Object]'')"

fun toNumber :: "js_runtime \<Rightarrow> json \<Rightarrow> js_error + jsnum" where
  "toNumber rt JUndefined = Inr NaN"
| "toNumber rt JNull = Inr (Fin 0)"
| "toNumber rt (JBool b) = Inr (if b then Fin 1 else Fin 0)"
| "toNumber rt (JNum n) = Inr n"
| "toNumber rt (JStr s) = Inr (stringToNumber rt s)"
| "toNumber rt (JArr xs) =
     (case toStr rt (JArr xs) of Inl e \<Rightarrow> Inl e | Inr s \<Rightarrow> Inr (stringToNumber rt s))"
| "toNumber rt (JObj kvs) =
     (case toStr rt (JObj kvs) of Inl e \<Rightarrow> Inl e | Inr s \<Rightarrow> Inr (stringToNumber rt s))"

text \<open>\<open>s.includes(sub)\<close>, \<open>xs.find(p)\<close>, \<open>xs[0]\<close>, and the first value of a list whose
  \<open>typeof\<close> is \<open>"boolean"\<close>.\<close>

fun startsWith :: "string \<Rightarrow> string \<Rightarrow> bool" where
  "startsWith s [] = True"
| "startsWith [] (c # cs) = False"
| "startsWith (x # xs) (c # cs) = (x = c \<and> startsWith xs cs)"

fun strIncludes :: "string \<Rightarrow> string \<Rightarrow> bool" where
  "strIncludes [] sub = (sub = [])"
| "strIncludes (x # xs) sub = (startsWith (x # xs) sub \<or> strIncludes xs sub)"

fun findJ :: "(json \<Rightarrow> bool) \<Rightarrow> json list \<Rightarrow> json" where
  "findJ P [] = JUndefined"
| "findJ P (x # xs) = (if P x then x else findJ P xs)"

text \<open>\<open>xs.find(p)\<close> and \<open>xs.filter(p)\<close> for a predicate that coerces: the elements are
  tested in order, and the first test that throws ends the call.\<close>

fun findE :: "(json \<Rightarrow> js_error + bool) \<Rightarrow> json list \<Rightarrow> js_error + json" where
  "findE P [] = Inr JUndefined"
| "findE P (x # xs) =
     (case P x of
        Inl e \<Rightarrow> Inl e
      | Inr t \<Rightarrow> if t then Inr x else findE P xs)"

fun filterE :: "(json \<Rightarrow> js_error + bool) \<Rightarrow> json list \<Rightarrow> js_error + json list" where
  "filterE P [] = Inr []"
| "filterE P (x # xs) =
     (case P x of
        Inl e \<Rightarrow> Inl e
      | Inr t \<Rightarrow>
          (case filterE P xs of
             Inl e \<Rightarrow> Inl e
           | Inr ys \<Rightarrow> Inr (if t then x # ys else ys)))"

fun firstElem :: "json list \<Rightarrow> json" where
  "firstElem [] = JUndefined"
| "firstElem (x # xs) = x"

fun firstBoolean :: "json list \<Rightarrow> bool option" where
  "firstBoolean [] = None"
| "firstBoolean (JBool b # vs) = Some b"
| "firstBoolean (v # vs) = firstBoolean vs"

section \<open>WAN signal reconciler (\<open>unifi.mjs\<close>)\<close>

text \<open>
  \<open>pickPrimaryWanGroup\<close>: nothing for a value that is not a non-empty array; else the first
  group whose id reads \<open>WAN\<close> in upper case; else the head of the groups sorted by numeric
  priority (9999 where the priority is not a finite number). The comparator is
  \<open>a.p - b.p\<close> on finite numbers and the sort is stable, which is \<open>sort_key\<close>. The
  priorities of all groups are computed, in order, before the sort.
\<close>

definition groupPriority :: "js_runtime \<Rightarrow> json \<Rightarrow> js_error + rat" where
  "groupPriority rt g =
     bindE (toNumber rt (getProp ''priority'' g))
       (\<lambda>n. Inr (case n of Fin q \<Rightarrow> q | _ \<Rightarrow> 9999))"

definition pickPrimaryWanGroup :: "js_runtime \<Rightarrow> json \<Rightarrow> js_error + json" where
  "pickPrimaryWanGroup rt groups =
     (case groups of
        JArr gs \<Rightarrow>
          if gs = [] then Inr JNull
          else
            bindE (findE (\<lambda>g. bindE (toStr rt (coalesce (getProp ''id'' g) (JStr [])))
                                  (\<lambda>s. Inr (toUpperCase rt s = ''WAN''))) gs)
              (\<lambda>byId.
                 if truthy byId then Inr byId
                 else
                   bindE (sequenceE (map (\<lambda>g. bindE (groupPriority rt g) (\<lambda>p. Inr (g, p))) gs))
                     (\<lambda>pairs.
                        (let withPrio = sort_key snd pairs
                         in Inr (coalesce
                                   (coalesce (case withPrio of [] \<Rightarrow> JUndefined | w # ws \<Rightarrow> fst w)
                                             (firstElem gs))
                                   JNull))))
      | _ \<Rightarrow> Inr JNull)"

record wan_status =
  ws_up :: "bool option"
  ws_primary :: json

definition readWanStatusFromGroups :: "js_runtime \<Rightarrow> json \<Rightarrow> js_error + wan_status" where
  "readWanStatusFromGroups rt groups =
     bindE (pickPrimaryWanGroup rt groups)
       (\<lambda>primary.
          if \<not> truthy primary then Inr \<lparr>ws_up = None, ws_primary = JNull\<rparr>
          else
            (let disabled = truthy (getProp ''disabled'' (getProp ''port_info'' primary))
             in bindE (toNumber rt (getProp ''uptime'' primary))
                  (\<lambda>uptime.
                     (let up = (if disabled then Some False
                                else if isFinite uptime then Some (num_gt uptime (Fin 0))
                                else None)
                      in Inr \<lparr>ws_up = up, ws_primary = primary\<rparr>))))"

text \<open>\<open>a || b || c || d || null\<close>: a later \<open>find\<close> runs only when the earlier ones found
  nothing.\<close>

definition pickGateway :: "js_runtime \<Rightarrow> json list \<Rightarrow> js_error + json" where
  "pickGateway rt devices =
     (let a = findJ (\<lambda>d. getProp ''type'' d = JStr ''gateway'') devices
      in if truthy a then Inr a
         else
           bindE (findE (\<lambda>d. bindE (toStr rt (coalesce (getProp ''model'' d) (JStr [])))
                                 (\<lambda>s. Inr (strIncludes (toUpperCase rt s) ''USG''))) devices)
             (\<lambda>b. if truthy b then Inr b
                  else
                    bindE (findE (\<lambda>d. bindE (toStr rt (coalesce (getProp ''name'' d) (JStr [])))
                                          (\<lambda>s. Inr (strIncludes (toUpperCase rt s) ''USG''))) devices)
                      (\<lambda>c. if truthy c then Inr c
                           else
                             bindE (findE (\<lambda>d. bindE (toStr rt (coalesce (getProp ''productLine'' d)
                                                                           (JStr [])))
                                                   (\<lambda>s. Inr (strIncludes (toLowerCase rt s) ''gateway'')))
                                      devices)
                               (\<lambda>d. if truthy d then Inr d else Inr JNull))))"

definition isWanPort :: "js_runtime \<Rightarrow> json \<Rightarrow> js_error + bool" where
  "isWanPort rt p =
     bindE (toStr rt (coalesce (coalesce (coalesce (getProp ''name'' p) (getProp ''portName'' p))
                                         (getProp ''displayName'' p)) (JStr [])))
       (\<lambda>n.
          bindE (toStr rt (coalesce (coalesce (coalesce (getProp ''role'' p) (getProp ''purpose'' p))
                                              (getProp ''usage'' p)) (JStr [])))
            (\<lambda>r.
               (let name = toLowerCase rt n; role = toLowerCase rt r
                in Inr (getProp ''isWan'' p = JBool True \<or> role = ''wan'' \<or> strIncludes name ''wan''))))"

text \<open>The loop over the candidate ports: boolean flags first, then the status vocabularies.\<close>

fun scanPorts :: "js_runtime \<Rightarrow> json list \<Rightarrow> js_error + bool option" where
  "scanPorts rt [] = Inr None"
| "scanPorts rt (p # ps) =
     (case firstBoolean [getProp ''up'' p, getProp ''linkUp'' p, getProp ''hasLink'' p,
                         getProp ''connected'' p, getProp ''link'' p] of
        Some b \<Rightarrow> Inr (Some b)
      | None \<Rightarrow>
          (case toStr rt (coalesce (coalesce (getProp ''status'' p) (getProp ''state'' p)) (JStr [])) of
             Inl e \<Rightarrow> Inl e
           | Inr s \<Rightarrow>
               (let st = toLowerCase rt s
                in if st \<noteq> [] \<and> st \<in> set [''up'', ''online'', ''connected'', ''ok'']
                     then Inr (Some True)
                   else if st \<noteq> [] \<and> st \<in> set [''down'', ''offline'', ''disconnected'', ''no_link'']
                     then Inr (Some False)
                   else scanPorts rt ps)))"

definition readWanUp :: "js_runtime \<Rightarrow> json \<Rightarrow> js_error + bool option" where
  "readWanUp rt gw =
     (if \<not> truthy gw then Inr None
      else
        (case firstBoolean
                [getProp ''up'' (getProp ''uplink'' gw),
                 getProp ''up'' (getProp ''wan'' gw),
                 getProp ''up'' (getProp ''internet'' gw),
                 getProp ''connected'' (getProp ''internet'' gw),
                 getProp ''internet'' (getProp ''connectivity'' gw),
                 getProp ''wanUp'' (getProp ''status'' gw),
                 getProp ''wanUp'' gw] of
           Some b \<Rightarrow> Inr (Some b)
         | None \<Rightarrow>
             bindE (case getProp ''uplink'' gw of
                      JArr upl \<Rightarrow>
                        bindE (findE (\<lambda>x. bindE (toStr rt (coalesce (getProp ''name'' x) (JStr [])))
                                              (\<lambda>s. Inr (strIncludes (toLowerCase rt s) ''wan''))) upl)
                          (\<lambda>found.
                             (let wan = coalesce found (firstElem upl)
                              in Inr (firstBoolean [getProp ''up'' wan, getProp ''linkUp'' wan,
                                                    getProp ''connected'' wan])))
                    | _ \<Rightarrow> Inr None)
               (\<lambda>u. case u of
                      Some b \<Rightarrow> Inr (Some b)
                    | None \<Rightarrow>
                        (let ifs = getProp ''interfaces'' gw;
                             ports = coalesce (coalesce (coalesce (getProp ''ports'' ifs)
                                                                  (getProp ''ethernetPorts'' ifs))
                                                        (if isArray ifs then ifs else JNull))
                                              (JArr [])
                         in case ports of
                              JArr ps \<Rightarrow>
                                if ps = [] then Inr None
                                else
                                  bindE (filterE (isWanPort rt) ps)
                                    (\<lambda>wanPorts.
                                       (let candidates = (if wanPorts \<noteq> [] then wanPorts else ps)
                                        in scanPorts rt candidates))
                            | _ \<Rightarrow> Inr None))))"

section \<open>Health state machine with history (\<open>monitor.mjs\<close>)\<close>

datatype hstate = OK | DEGRADED | DOWN | UNKNOWN

record probe_result =
  pr_ok :: bool
  pr_url :: string
  pr_ms :: "int option"

record gateway_info =
  gw_id :: json
  gw_name :: json
  gw_model :: json
  gw_type :: json

text \<open>
  \<open>base\<close>, the fields every record of a cycle shares, and the history entry
  \<open>{ ...base, state, reason, note }\<close>. (\<open>setState\<close> writes \<open>{ ts: iso(), state: next,
  ...details }\<close>; the spread comes last, so the entry's \<open>ts\<close> is the one of \<open>base\<close>.)
\<close>

record tick_base =
  b_ts :: string
  b_probe :: probe_result
  b_wanUp :: "bool option"
  b_wan :: json
  b_wanGroups :: json
  b_unifiError :: "string option"
  b_gateway :: "gateway_info option"

record entry =
  e_base :: tick_base
  e_state :: hstate
  e_reason :: string
  e_note :: "string option"

text \<open>
  The counters are JavaScript numbers that only ever count up from zero by one; they are
  natural numbers here. The thresholds and the capacity are \<open>Number(process.env...)\<close>, any
  number at all.
\<close>

record monitor =
  state :: hstate
  fail :: nat
  succ :: nat
  degradedAfterFails :: jsnum
  downAfterFails :: jsnum
  okAfterSucc :: jsnum
  history :: "entry list"
  maxHistory :: jsnum
  lastEntry :: "entry option"

definition newMonitor :: "jsnum \<Rightarrow> jsnum \<Rightarrow> jsnum \<Rightarrow> jsnum \<Rightarrow> monitor" where
  "newMonitor degraded down ok maxH =
     \<lparr>state = UNKNOWN, fail = 0, succ = 0,
      degradedAfterFails = degraded, downAfterFails = down, okAfterSucc = ok,
      history = [], maxHistory = maxH, lastEntry = None\<rparr>"

text \<open>
  Assigning \<open>array.length = x\<close> throws a RangeError unless \<open>x\<close> is an integer between 0 and
  \<open>2^32 - 1\<close>. \<open>pushHistory\<close> has already put the entry at the front when that happens, so the
  monitor after the call is returned next to the error.
\<close>

definition arrayLength :: "jsnum \<Rightarrow> nat option" where
  "arrayLength x =
     (case x of
        Fin q \<Rightarrow> if 0 \<le> q \<and> q < 2 ^ 32 \<and> of_int \<lfloor>q\<rfloor> = q then Some (nat \<lfloor>q\<rfloor>) else None
      | _ \<Rightarrow> None)"

definition pushHistory :: "entry \<Rightarrow> monitor \<Rightarrow> monitor \<times> js_error option" where
  "pushHistory e m =
     (let m1 = m\<lparr>history := e # history m\<rparr>;
          m2 = m1\<lparr>lastEntry := Some e\<rparr>
      in if num_gt (numOfNat (length (history m2))) (maxHistory m2) then
           (case arrayLength (maxHistory m2) of
              Some n \<Rightarrow> (m2\<lparr>history := take n (history m2)\<rparr>, None)
            | None \<Rightarrow> (m2, Some RangeError))
         else (m2, None))"

text \<open>
  What a cycle hands back: the monitor after it, the calls it made to the \<open>onChange\<close>
  callback, and either the exception it threw or the object it returned (whose \<open>snapshot\<close>
  field is the state and history of the monitor after the cycle).
\<close>

record change =
  c_prev :: hstate
  c_next :: hstate
  c_entry :: entry

record tick_result =
  r_entry :: entry
  r_prev :: hstate
  r_next :: hstate
  r_changed :: bool

record tick_outcome =
  o_monitor :: monitor
  o_changes :: "change list"
  o_result :: "js_error + tick_result"

definition setState :: "hstate \<Rightarrow> tick_base \<Rightarrow> string \<Rightarrow> string option \<Rightarrow> monitor \<Rightarrow> tick_outcome" where
  "setState next base reason note m =
     (let prev = state m;
          m1 = m\<lparr>state := next\<rparr>;
          entry = \<lparr>e_base = base, e_state = next, e_reason = reason, e_note = note\<rparr>
      in case pushHistory entry m1 of
           (m2, Some err) \<Rightarrow> \<lparr>o_monitor = m2, o_changes = [], o_result = Inl err\<rparr>
         | (m2, None) \<Rightarrow>
             \<lparr>o_monitor = m2,
              o_changes = (if prev \<noteq> next
                           then [\<lparr>c_prev = prev, c_next = next, c_entry = entry\<rparr>] else []),
              o_result = Inr \<lparr>r_entry = entry, r_prev = prev, r_next = next,
                              r_changed = (prev \<noteq> next)\<rparr>\<rparr>)"

text \<open>The two "soft" branches of \<open>tick\<close>: an entry with the state as it is, and no callback.\<close>

definition softEntry :: "tick_base \<Rightarrow> string \<Rightarrow> string option \<Rightarrow> monitor \<Rightarrow> tick_outcome" where
  "softEntry base reason note m =
     (let entry = \<lparr>e_base = base, e_state = state m, e_reason = reason, e_note = note\<rparr>
      in case pushHistory entry m of
           (m2, Some err) \<Rightarrow> \<lparr>o_monitor = m2, o_changes = [], o_result = Inl err\<rparr>
         | (m2, None) \<Rightarrow>
             \<lparr>o_monitor = m2, o_changes = [],
              o_result = Inr \<lparr>r_entry = entry, r_prev = state m2, r_next = state m2,
                              r_changed = False\<rparr>\<rparr>)"

text \<open>
  One cycle reads the clock, the device inventory (which may throw), the probe and the WAN
  network groups (which may throw): these are the inputs of the model.
\<close>

record tick_input =
  i_ts :: string
  i_devices :: "string + json list"
  i_probe :: probe_result
  i_wanGroups :: "string + json"

definition wanGroupsOf :: "json \<Rightarrow> json" where
  "wanGroupsOf resp =
     coalesce (coalesce (coalesce (getProp ''wan_network_groups'' resp)
                                  (getProp ''wanNetworkGroups'' resp))
                        (getProp ''data'' resp))
              (if isArray resp then resp else JNull)"

text \<open>
  The first half of \<open>tick\<close>, up to the object \<open>base\<close>. \<open>pickGateway\<close> and \<open>readWanUp\<close>
  run outside any \<open>try\<close>: their exception is the cycle's. The listing is read inside a
  \<open>try\<close> whose \<open>catch\<close> is empty: an exception of \<open>readWanStatusFromGroups\<close> leaves
  \<open>wanGroups\<close> assigned, and \<open>wan\<close> and \<open>wanUp\<close> as they were.
\<close>

definition tickBase :: "js_runtime \<Rightarrow> tick_input \<Rightarrow> js_error + tick_base" where
  "tickBase rt inp =
     (let devices = (case i_devices inp of Inl e \<Rightarrow> [] | Inr ds \<Rightarrow> ds);
          unifiError = (case i_devices inp of Inl e \<Rightarrow> Some e | Inr ds \<Rightarrow> None);
          probe = i_probe inp
      in bindE (pickGateway rt devices)
           (\<lambda>gw.
              bindE (readWanUp rt gw)
                (\<lambda>wanUp0.
                   (let rich =
                          (case i_wanGroups inp of
                             Inl e \<Rightarrow> (JNull, JNull, wanUp0)
                           | Inr resp \<Rightarrow>
                               (let groups = wanGroupsOf resp
                                in if isArray groups then
                                     (case readWanStatusFromGroups rt groups of
                                        Inl e \<Rightarrow> (JNull, groups, wanUp0)
                                      | Inr status \<Rightarrow>
                                          (ws_primary status, groups,
                                           (case ws_up status of Some b \<Rightarrow> Some b
                                            | None \<Rightarrow> wanUp0)))
                                   else (JNull, JNull, wanUp0)))
                    in case rich of
                         (wan, wanGroups, wanUp) \<Rightarrow>
                           Inr \<lparr>b_ts = i_ts inp, b_probe = probe, b_wanUp = wanUp, b_wan = wan,
                                b_wanGroups = wanGroups, b_unifiError = unifiError,
                                b_gateway =
                                  (if truthy gw
                                   then Some \<lparr>gw_id = getProp ''id'' gw, gw_name = getProp ''name'' gw,
                                              gw_model = getProp ''model'' gw,
                                              gw_type = getProp ''type'' gw\<rparr>
                                   else None)\<rparr>))))"

text \<open>The second half: the three numbered branches of \<open>tick\<close>.\<close>

definition tickDecide :: "js_runtime \<Rightarrow> tick_base \<Rightarrow> monitor \<Rightarrow> tick_outcome" where
  "tickDecide rt base m =
     (if b_wanUp base = Some False then
        (let m1 = m\<lparr>fail := 0\<rparr>; m2 = m1\<lparr>succ := 0\<rparr>
         in setState DOWN base ''WAN_LINK_DOWN'' None m2)
      else if \<not> pr_ok (b_probe base) then
        (let m1 = m\<lparr>fail := fail m + 1\<rparr>; m2 = m1\<lparr>succ := 0\<rparr>;
             note = Some (''failCount='' @ numberToString rt (numOfNat (fail m2)))
         in if num_ge (numOfNat (fail m2)) (downAfterFails m2) then
              setState DOWN base ''PROBE_DOWN'' note m2
            else if num_ge (numOfNat (fail m2)) (degradedAfterFails m2) then
              setState DEGRADED base ''PROBE_DEGRADED'' note m2
            else softEntry base ''PROBE_FAIL_SOFT'' note m2)
      else
        (let m1 = m\<lparr>succ := succ m + 1\<rparr>; m2 = m1\<lparr>fail := 0\<rparr>;
             note = Some (''okCount='' @ numberToString rt (numOfNat (succ m2)))
         in if state m2 = UNKNOWN \<or> num_ge (numOfNat (succ m2)) (okAfterSucc m2) then
              setState OK base ''PROBE_OK'' note m2
            else softEntry base ''PROBE_OK_SOFT'' note m2))"

text \<open>A cycle that throws in its first half has changed nothing.\<close>

definition tick :: "js_runtime \<Rightarrow> tick_input \<Rightarrow> monitor \<Rightarrow> tick_outcome" where
  "tick rt inp m =
     (case tickBase rt inp of
        Inl err \<Rightarrow> \<lparr>o_monitor = m, o_changes = [], o_result = Inl err\<rparr>
      | Inr base \<Rightarrow> tickDecide rt base m)"

text \<open>
  A sequence of cycles on one monitor (a cycle that throws is logged by the caller and the
  next one runs on the monitor as the failed cycle left it), and the entries the cycles
  put into the history, oldest first: none for a cycle that throws in its first half, else
  the entry the cycle left in \<open>lastEntry\<close>.
\<close>

fun runTicks :: "js_runtime \<Rightarrow> tick_input list \<Rightarrow> monitor \<Rightarrow> monitor" where
  "runTicks rt [] m = m"
| "runTicks rt (inp # inps) m = runTicks rt inps (o_monitor (tick rt inp m))"

fun entriesOf :: "js_runtime \<Rightarrow> tick_input list \<Rightarrow> monitor \<Rightarrow> entry list" where
  "entriesOf rt [] m = []"
| "entriesOf rt (inp # inps) m =
     (let m1 = o_monitor (tick rt inp m)
      in (case tickBase rt inp of
            Inl err \<Rightarrow> []
          | Inr base \<Rightarrow> (case lastEntry m1 of Some e \<Rightarrow> [e] | None \<Rightarrow> []))
         @ entriesOf rt inps m1)"

text \<open>
  The two verdicts a cycle reconciles: the one read off the gateway device (or the
  exception of reading it), and the one of the WAN network group listing (none when the
  call throws, yields no array, or reading the groups throws).
\<close>

definition deviceVerdict :: "js_runtime \<Rightarrow> string + json list \<Rightarrow> js_error + bool option" where
  "deviceVerdict rt devs =
     bindE (pickGateway rt (case devs of Inl e \<Rightarrow> [] | Inr ds \<Rightarrow> ds)) (readWanUp rt)"

definition listingVerdict :: "js_runtime \<Rightarrow> string + json \<Rightarrow> bool option" where
  "listingVerdict rt resp =
     (case resp of
        Inl e \<Rightarrow> None
      | Inr r \<Rightarrow>
          if isArray (wanGroupsOf r)
          then (case readWanStatusFromGroups rt (wanGroupsOf r) of
                  Inl e \<Rightarrow> None
                | Inr status \<Rightarrow> ws_up status)
          else None)"

text \<open>A cycle whose probe fails while the reconciled WAN verdict is up or unknown.\<close>

definition probeFails :: "js_runtime \<Rightarrow> tick_input \<Rightarrow> bool" where
  "probeFails rt inp =
     (case tickBase rt inp of
        Inl err \<Rightarrow> False
      | Inr base \<Rightarrow> \<not> pr_ok (i_probe inp) \<and> b_wanUp base \<noteq> Some False)"

text \<open>The cycles of a sequence that get past their first half.\<close>

definition inserting :: "js_runtime \<Rightarrow> tick_input list \<Rightarrow> tick_input list" where
  "inserting rt inps = filter (\<lambda>inp. case tickBase rt inp of Inl err \<Rightarrow> False | Inr base \<Rightarrow> True) inps"

section \<open>Distribution service (\<open>server.mjs\<close>)\<close>

text \<open>
  The service owns the monitor; what it broadcasts to the sockets and what it appends to the
  event log are kept as lists, oldest first. (The \<open>label\<close> of a message is \<open>stateLabel\<close> of
  the state it carries; delivery to the individual sockets and the file system are outside
  the model.)
\<close>

datatype audit_kind = INTERNET_DOWN | INTERNET_RESTORED

record audit_event =
  a_ts :: string
  a_kind :: audit_kind
  a_prev :: hstate
  a_next :: hstate
  a_probe :: "probe_result option"
  a_wanUp :: "bool option"
  a_gateway :: "gateway_info option"
  a_note :: "string option"

datatype ws_out =
  StateChangeMsg hstate hstate entry
| TickMsg hstate entry

record server =
  sv_monitor :: monitor
  sv_sent :: "ws_out list"
  sv_log :: "audit_event list"

definition broadcast :: "ws_out \<Rightarrow> server \<Rightarrow> server" where
  "broadcast msg sv = sv\<lparr>sv_sent := sv_sent sv @ [msg]\<rparr>"

definition appendEvent :: "audit_event \<Rightarrow> server \<Rightarrow> server" where
  "appendEvent ev sv = sv\<lparr>sv_log := sv_log sv @ [ev]\<rparr>"

definition auditRecord :: "string \<Rightarrow> audit_kind \<Rightarrow> change \<Rightarrow> audit_event" where
  "auditRecord now kind c =
     \<lparr>a_ts = now, a_kind = kind, a_prev = c_prev c, a_next = c_next c,
      a_probe = Some (b_probe (e_base (c_entry c))),
      a_wanUp = b_wanUp (e_base (c_entry c)),
      a_gateway = b_gateway (e_base (c_entry c)),
      a_note = (case e_note (c_entry c) of Some n \<Rightarrow> Some n
                | None \<Rightarrow> Some (e_reason (c_entry c)))\<rparr>"

text \<open>
  The handler the service installs as \<open>monitor.onChange\<close>. \<open>now\<close> is the clock it reads
  when it builds a record (its two conditions exclude each other, so it reads the clock at
  most once).
\<close>

definition onChange :: "string \<Rightarrow> change \<Rightarrow> server \<Rightarrow> server" where
  "onChange now c sv =
     (let sv1 = broadcast (StateChangeMsg (c_prev c) (c_next c) (c_entry c)) sv;
          sv2 = (if c_next c = DOWN then appendEvent (auditRecord now INTERNET_DOWN c) sv1 else sv1);
          sv3 = (if c_prev c = DOWN \<and> c_next c = OK
                 then appendEvent (auditRecord now INTERNET_RESTORED c) sv2 else sv2)
      in sv3)"

text \<open>
  One firing of the interval timer: the cycle (during which the monitor calls the handler),
  then the tick broadcast unless the cycle threw.
\<close>

definition serverCycle :: "js_runtime \<Rightarrow> string \<Rightarrow> tick_input \<Rightarrow> server \<Rightarrow> server" where
  "serverCycle rt now inp sv =
     (let out = tick rt inp (sv_monitor sv);
          sv1 = foldl (\<lambda>s c. onChange now c s) (sv\<lparr>sv_monitor := o_monitor out\<rparr>) (o_changes out)
      in case o_result out of
           Inl err \<Rightarrow> sv1
         | Inr r \<Rightarrow> broadcast (TickMsg (state (sv_monitor sv1)) (r_entry r)) sv1)"

text \<open>The audit records a step appended to the log.\<close>

definition newAudit :: "server \<Rightarrow> server \<Rightarrow> audit_event list" where
  "newAudit sv sv' = drop (length (sv_log sv)) (sv_log sv')"

section \<open>Standalone monitor (\<open>unifi-monitor.mjs\<close>)\<close>

subsection \<open>Controller client\<close>

text \<open>
  The controller is whatever answers the client's HTTP requests: a function of the requests
  sent so far and the request at hand, giving the reason \<open>fetch\<close> rejected or the response.
  A response is given by what the client reads from it: its status, \<open>getSetCookies(res)\<close>,
  \<open>res.text()\<close> (empty when that rejects) and \<open>res.json()\<close> (\<open>None\<close> when that rejects).
  The client logs every request it sends in \<open>requests\<close>. An exception is a value of
  \<open>api_error\<close>. \<open>baseUrl8443\<close> is \<open>withPort(baseUrl, 8443)\<close>, a function of the base address alone.
\<close>

record http_request =
  rq_method :: string
  rq_url :: string
  rq_cookie :: "string option"
  rq_body :: "json option"

record http_response =
  rs_status :: nat
  rs_setCookies :: "string list"
  rs_text :: string
  rs_json :: "json option"

type_synonym controller = "http_request list \<Rightarrow> http_request \<Rightarrow> string + http_response"

datatype api_error =
  FetchFailed string
| LoginFailed string nat string
| NoCookie string
| AutoLoginFailed api_error api_error
| HttpError nat string string
| InvalidJson

record credentials =
  UNIFI_USERNAME :: string
  UNIFI_PASSWORD :: string

record unifi_client =
  baseUrl :: string
  baseUrl8443 :: string
  mode :: string
  cookie :: string
  effectiveMode :: "string option"
  baseUrlEffective :: "string option"
  requests :: "http_request list"

definition newUniFiClient :: "string \<Rightarrow> string \<Rightarrow> string \<Rightarrow> unifi_client" where
  "newUniFiClient base base8443 m =
     \<lparr>baseUrl = base, baseUrl8443 = base8443, mode = m, cookie = [],
      effectiveMode = None, baseUrlEffective = None, requests = []\<rparr>"

definition res_ok :: "http_response \<Rightarrow> bool" where
  "res_ok r = (200 \<le> rs_status r \<and> rs_status r \<le> 299)"

definition mergeCookies :: "string list \<Rightarrow> string" where
  "mergeCookies setCookies =
     joinWith ''; '' (filter (\<lambda>s. s \<noteq> []) (map (takeWhile (\<lambda>ch. ch \<noteq> CHR '';'')) setCookies))"

definition fetch :: "controller \<Rightarrow> http_request \<Rightarrow> unifi_client
    \<Rightarrow> unifi_client \<times> (string + http_response)" where
  "fetch srv rq c = (c\<lparr>requests := requests c @ [rq]\<rparr>, srv (requests c) rq)"

definition loginBody :: "credentials \<Rightarrow> json" where
  "loginBody cr =
     JObj [(''username'', JStr (UNIFI_USERNAME cr)), (''password'', JStr (UNIFI_PASSWORD cr))]"

definition loginUniFiOS :: "controller \<Rightarrow> credentials \<Rightarrow> string \<Rightarrow> unifi_client
    \<Rightarrow> unifi_client \<times> api_error option" where
  "loginUniFiOS srv cr base c =
     (case fetch srv \<lparr>rq_method = ''POST'', rq_url = base @ ''/api/auth/login'', rq_cookie = None,
                      rq_body = Some (loginBody cr)\<rparr> c of
        (c1, Inl e) \<Rightarrow> (c1, Some (FetchFailed e))
      | (c1, Inr res) \<Rightarrow>
          if \<not> res_ok res then (c1, Some (LoginFailed ''UniFiOS'' (rs_status res) (rs_text res)))
          else
            (let c2 = c1\<lparr>cookie := mergeCookies (rs_setCookies res)\<rparr>
             in if cookie c2 = [] then (c2, Some (NoCookie ''UniFiOS''))
                else (c2\<lparr>effectiveMode := Some ''unifios'', baseUrlEffective := Some base\<rparr>, None)))"

definition loginLegacy :: "controller \<Rightarrow> credentials \<Rightarrow> string \<Rightarrow> unifi_client
    \<Rightarrow> unifi_client \<times> api_error option" where
  "loginLegacy srv cr baseLegacy c =
     (case fetch srv \<lparr>rq_method = ''POST'', rq_url = baseLegacy @ ''/api/login'', rq_cookie = None,
                      rq_body = Some (loginBody cr)\<rparr> c of
        (c1, Inl e) \<Rightarrow> (c1, Some (FetchFailed e))
      | (c1, Inr res) \<Rightarrow>
          if \<not> res_ok res then (c1, Some (LoginFailed ''Legacy'' (rs_status res) (rs_text res)))
          else
            (let c2 = c1\<lparr>cookie := mergeCookies (rs_setCookies res)\<rparr>
             in if cookie c2 = [] then (c2, Some (NoCookie ''Legacy''))
                else (c2\<lparr>effectiveMode := Some ''legacy'', baseUrlEffective := Some baseLegacy\<rparr>,
                      None)))"

definition ensureLogin :: "controller \<Rightarrow> credentials \<Rightarrow> unifi_client
    \<Rightarrow> unifi_client \<times> api_error option" where
  "ensureLogin srv cr c =
     (if cookie c \<noteq> [] \<and> effectiveMode c \<noteq> None \<and> effectiveMode c \<noteq> Some []
         \<and> baseUrlEffective c \<noteq> None \<and> baseUrlEffective c \<noteq> Some [] then (c, None)
      else if mode c = ''unifios'' then loginUniFiOS srv cr (baseUrl c) c
      else if mode c = ''legacy'' then loginLegacy srv cr (baseUrl8443 c) c
      else
        (case loginUniFiOS srv cr (baseUrl c) c of
           (c1, None) \<Rightarrow> (c1, None)
         | (c1, Some e1) \<Rightarrow>
             (case loginLegacy srv cr (baseUrl8443 c1) c1 of
                (c2, None) \<Rightarrow> (c2, None)
              | (c2, Some e2) \<Rightarrow> (c2, Some (AutoLoginFailed e1 e2)))))"

text \<open>
  \<open>request\<close> calls itself after a 401 or 403, so it need not return: it is a partial
  function, and \<open>None\<close> is the call that never returns. A call that returns gives the client
  after it and either the exception or the parsed body.
\<close>

partial_function (option) request ::
  "controller \<Rightarrow> credentials \<Rightarrow> string \<Rightarrow> string \<Rightarrow> json option \<Rightarrow> unifi_client
     \<Rightarrow> (unifi_client \<times> (api_error + json)) option" where
  "request srv cr path method body c =
     (case ensureLogin srv cr c of
        (c1, Some e) \<Rightarrow> Some (c1, Inl e)
      | (c1, None) \<Rightarrow>
          (case fetch srv \<lparr>rq_method = method,
                           rq_url = (case baseUrlEffective c1 of Some b \<Rightarrow> b | None \<Rightarrow> ''null'') @ path,
                           rq_cookie = Some (cookie c1), rq_body = body\<rparr> c1 of
             (c2, Inl e) \<Rightarrow> Some (c2, Inl (FetchFailed e))
           | (c2, Inr res) \<Rightarrow>
               if rs_status res = 401 \<or> rs_status res = 403 then
                 (case ensureLogin srv cr (c2\<lparr>cookie := []\<rparr>) of
                    (c3, Some e) \<Rightarrow> Some (c3, Inl e)
                  | (c3, None) \<Rightarrow> request srv cr path method body c3)
               else if \<not> res_ok res then
                 Some (c2, Inl (HttpError (rs_status res) path (rs_text res)))
               else
                 (case rs_json res of
                    None \<Rightarrow> Some (c2, Inl InvalidJson)
                  | Some j \<Rightarrow> Some (c2, Inr j))))"

text \<open>The number of times the client has sent a \<open>GET\<close> (its logins are \<open>POST\<close>s).\<close>

definition getAttempts :: "unifi_client \<Rightarrow> nat" where
  "getAttempts c = length (filter (\<lambda>rq. rq_method rq = ''GET'') (requests c))"

subsection \<open>State machine and main loop\<close>

record env_cfg =
  PROBE_FAILS_FOR_DEGRADED :: jsnum
  PROBE_SUCCESSES_FOR_OK :: jsnum
  ALERT_WEBHOOK :: string

record health_sm =
  sm_state :: hstate
  failCount :: nat
  successCount :: nat

definition newHealthStateMachine :: health_sm where
  "newHealthStateMachine = \<lparr>sm_state = UNKNOWN, failCount = 0, successCount = 0\<rparr>"

definition update :: "env_cfg \<Rightarrow> bool option \<Rightarrow> bool \<Rightarrow> health_sm \<Rightarrow> health_sm" where
  "update env wanUp probeOk s =
     (if wanUp = Some False then
        s\<lparr>sm_state := DOWN, failCount := 0, successCount := 0\<rparr>
      else if \<not> probeOk then
        (let s1 = s\<lparr>failCount := failCount s + 1, successCount := 0\<rparr>
         in if num_ge (numOfNat (failCount s1)) (PROBE_FAILS_FOR_DEGRADED env)
            then s1\<lparr>sm_state := DEGRADED\<rparr> else s1)
      else
        (let s1 = s\<lparr>successCount := successCount s + 1, failCount := 0\<rparr>;
             s2 = (if num_ge (numOfNat (successCount s1)) (PROBE_SUCCESSES_FOR_OK env)
                   then s1\<lparr>sm_state := OK\<rparr> else s1)
         in if sm_state s2 = UNKNOWN then s2\<lparr>sm_state := OK\<rparr> else s2))"

fun runUpdates :: "env_cfg \<Rightarrow> (bool option \<times> bool) list \<Rightarrow> health_sm \<Rightarrow> health_sm" where
  "runUpdates env [] s = s"
| "runUpdates env ((wanUp, probeOk) # ins) s = runUpdates env ins (update env wanUp probeOk s)"

definition pickUSG :: "js_runtime \<Rightarrow> json \<Rightarrow> js_error + json" where
  "pickUSG rt devices =
     (let arr = (case devices of JArr ds \<Rightarrow> ds | _ \<Rightarrow> []);
          a = findJ (\<lambda>d. getProp ''type'' d = JStr ''ugw'') arr
      in if truthy a then Inr a
         else
           bindE (findE (\<lambda>d. bindE (toStr rt (coalesce (getProp ''model'' d) (JStr [])))
                                 (\<lambda>s. Inr (strIncludes (toUpperCase rt s) ''USG''))) arr)
             (\<lambda>b. if truthy b then Inr b else Inr JNull))"

definition readWanUpFromUSG :: "js_runtime \<Rightarrow> json \<Rightarrow> js_error + bool option" where
  "readWanUpFromUSG rt usg =
     (let u = getProp ''uplink'' usg
      in case getProp ''up'' u of
           JBool b \<Rightarrow> Inr (Some b)
         | _ \<Rightarrow>
             (case u of
                JArr us \<Rightarrow>
                  bindE (findE (\<lambda>x. bindE (toStr rt (coalesce (getProp ''name'' x) (JStr [])))
                                        (\<lambda>s. Inr (strIncludes (toLowerCase rt s) ''wan''))) us)
                    (\<lambda>found.
                       (let wan = coalesce found (firstElem us)
                        in Inr (case getProp ''up'' wan of JBool b \<Rightarrow> Some b | _ \<Rightarrow> None)))
              | _ \<Rightarrow> Inr None))"

definition parseDataEnvelope :: "json \<Rightarrow> json" where
  "parseDataEnvelope j =
     (if \<not> truthy j then JArr []
      else if isArray j then j
      else if isArray (getProp ''data'' j) then getProp ''data'' j
      else if isArray (getProp ''results'' j) then getProp ''results'' j
      else if isArray (getProp ''rows'' j) then getProp ''rows'' j
      else JArr [])"

definition wanHealthFromHealth :: "js_runtime \<Rightarrow> json \<Rightarrow> js_error + json" where
  "wanHealthFromHealth rt healthArr =
     bindE (findE (\<lambda>h. bindE (toStr rt (coalesce (getProp ''subsystem'' h) (JStr [])))
                           (\<lambda>s. Inr (toLowerCase rt s = ''wan'')))
              (case healthArr of JArr hs \<Rightarrow> hs | _ \<Rightarrow> []))
       (\<lambda>wan. Inr (coalesce wan JNull))"

text \<open>
  One pass of the \<open>for (;;)\<close> loop of \<open>main\<close>. Its inputs are the clock, the outcome of the
  \<open>Promise.all\<close> over the two controller calls (the message of the rejection, or the two
  bodies), the probe, and the client's effective mode. The alerts handed to \<open>fetch\<close> by
  \<open>postWebhook\<close> are kept in \<open>l_posted\<close>; the \<open>text\<close> of an alert is a rendering of its fields.
  Everything runs inside one \<open>try\<close>, so an exception of a coercion ends in the same
  \<open>catch\<close> as a failed controller call, with the message of the exception: before the
  state machine is updated when a device or health payload cannot be coerced, after it when
  the gateway's name cannot be printed into the log line.
\<close>

record http_probe =
  hp_ok :: bool
  hp_url :: string

record alert_details =
  d_mode :: "string option"
  d_probe :: http_probe
  d_wanUp :: "bool option"
  d_wanHealth :: json
  d_usg :: json

datatype webhook_payload =
  StateAlert string hstate alert_details
| UnknownAlert string string

record loop_state =
  l_sm :: health_sm
  l_lastNotifiedState :: "hstate option"
  l_posted :: "webhook_payload list"

record cycle_input =
  ci_ts :: string
  ci_controller :: "string + json \<times> json"
  ci_probe :: http_probe
  ci_mode :: "string option"

definition postWebhook :: "string \<Rightarrow> webhook_payload \<Rightarrow> loop_state \<Rightarrow> loop_state" where
  "postWebhook webhookUrl payload l =
     (if webhookUrl = [] then l else l\<lparr>l_posted := l_posted l @ [payload]\<rparr>)"

definition usgSummary :: "json \<Rightarrow> json" where
  "usgSummary usg =
     (if truthy usg
      then JObj [(''name'', getProp ''name'' usg), (''model'', getProp ''model'' usg),
                 (''ip'', getProp ''ip'' usg), (''version'', getProp ''version'' usg)]
      else JNull)"

definition errorMessage :: "js_error \<Rightarrow> string" where
  "errorMessage e =
     (case e of
        TypeError \<Rightarrow> ''Cannot convert object to primitive value''
      | RangeError \<Rightarrow> ''Invalid array length'')"

text \<open>The \<open>catch\<close> block of the pass.\<close>

definition cycleFailed :: "env_cfg \<Rightarrow> string \<Rightarrow> string \<Rightarrow> loop_state \<Rightarrow> loop_state" where
  "cycleFailed env msg ts l =
     (if sm_state (l_sm l) \<noteq> UNKNOWN then
        (let l1 = l\<lparr>l_sm := (l_sm l)\<lparr>sm_state := UNKNOWN\<rparr>\<rparr>;
             l2 = l1\<lparr>l_lastNotifiedState := Some UNKNOWN\<rparr>
         in postWebhook (ALERT_WEBHOOK env) (UnknownAlert msg ts) l2)
      else l)"

definition mainCycle :: "js_runtime \<Rightarrow> env_cfg \<Rightarrow> cycle_input \<Rightarrow> loop_state \<Rightarrow> loop_state" where
  "mainCycle rt env inp l =
     (case ci_controller inp of
        Inl msg \<Rightarrow> cycleFailed env msg (ci_ts inp) l
      | Inr (devicesJson, healthJson) \<Rightarrow>
          (let probe = ci_probe inp;
               devices = parseDataEnvelope devicesJson;
               healthArr = parseDataEnvelope healthJson
           in case pickUSG rt devices of
                Inl e \<Rightarrow> cycleFailed env (errorMessage e) (ci_ts inp) l
              | Inr usg \<Rightarrow>
                  (case readWanUpFromUSG rt usg of
                     Inl e \<Rightarrow> cycleFailed env (errorMessage e) (ci_ts inp) l
                   | Inr wanUp \<Rightarrow>
                       (case wanHealthFromHealth rt healthArr of
                          Inl e \<Rightarrow> cycleFailed env (errorMessage e) (ci_ts inp) l
                        | Inr wanHealth \<Rightarrow>
                            (let sm1 = update env wanUp (hp_ok probe) (l_sm l);
                                 nextState = sm_state sm1;
                                 l1 = l\<lparr>l_sm := sm1\<rparr>;
                                 usgName = coalesce (coalesce (getProp ''name'' usg)
                                                              (getProp ''model'' usg))
                                                    (JStr ''USG?'')
                             in case toStr rt usgName of
                                  Inl e \<Rightarrow> cycleFailed env (errorMessage e) (ci_ts inp) l1
                                | Inr usgText \<Rightarrow>
                                    if Some nextState \<noteq> l_lastNotifiedState l1 then
                                      postWebhook (ALERT_WEBHOOK env)
                                        (StateAlert (ci_ts inp) nextState
                                           \<lparr>d_mode = ci_mode inp, d_probe = probe, d_wanUp = wanUp,
                                            d_wanHealth = wanHealth, d_usg = usgSummary usg\<rparr>)
                                        (l1\<lparr>l_lastNotifiedState := Some nextState\<rparr>)
                                    else l1)))))"

text \<open>The alerts a pass of the loop posted.\<close>

definition newPosted :: "loop_state \<Rightarrow> loop_state \<Rightarrow> webhook_payload list" where
  "newPosted l l' = drop (length (l_posted l)) (l_posted l')"

section \<open>Observer client (dashboard page)\<close>

subsection \<open>Merging tick messages into the local history\<close>

text \<open>
  The page's \<open>HistoryItem\<close>, \<open>Probe\<close> and \<open>StatusPayload\<close>, with the fields the handler reads
  and the scalar ones it carries along. An absent or \<open>null\<close> field is \<open>None\<close>.
\<close>

record probe_c =
  pc_ok :: bool
  pc_url :: "string option"
  pc_ms :: "jsnum option"

record history_item =
  hi_ts :: string
  hi_state :: string
  hi_wanUp :: "bool option"
  hi_probe :: "probe_c option"
  hi_note :: "string option"
  hi_reason :: "string option"
  hi_unifiError :: "string option"

record status_payload =
  sp_state :: string
  sp_label :: string
  sp_history :: "history_item list"

record tick_message =
  tm_entry :: history_item
  tm_state :: "string option"
  tm_label :: "string option"

text \<open>The template string \<open>`${h.ts}|${h.state}|${h.probe?.ms ?? "x"}`\<close>.\<close>

definition dedupKey :: "js_runtime \<Rightarrow> history_item \<Rightarrow> string" where
  "dedupKey rt h =
     hi_ts h @ ''|'' @ hi_state h @ ''|'' @
     (case (case hi_probe h of None \<Rightarrow> None | Some p \<Rightarrow> pc_ms p) of
        None \<Rightarrow> ''x''
      | Some n \<Rightarrow> numberToString rt n)"

text \<open>
  The updater passed to \<open>setData\<close> for a message of type \<open>tick\<close> that carries an entry;
  \<open>prev\<close> is the page's data, \<open>None\<close> before the first load.
\<close>

definition tickUpdate :: "js_runtime \<Rightarrow> tick_message \<Rightarrow> status_payload option \<Rightarrow> status_payload" where
  "tickUpdate rt msg prev =
     (let entry = tm_entry msg;
          prevHist = (case prev of None \<Rightarrow> [] | Some d \<Rightarrow> sp_history d);
          key = dedupKey rt entry;
          has = list_ex (\<lambda>h. dedupKey rt h = key) prevHist;
          nextHist = (if has then prevHist else take 250 (entry # prevHist))
      in \<lparr>sp_state = (case tm_state msg of Some s \<Rightarrow> s | None \<Rightarrow> hi_state entry),
          sp_label = (case tm_label msg of Some l \<Rightarrow> l
                      | None \<Rightarrow> (case prev of None \<Rightarrow> [] | Some d \<Rightarrow> sp_label d)),
          sp_history = nextHist\<rparr>)"

subsection \<open>Reconnection backoff\<close>

text \<open>
  The page keeps a retry counter \<open>wsRetryRef\<close>, a liveness flag \<open>aliveRef\<close> and a connection
  status. \<open>scheduleReconnect\<close> bumps the counter (capped at 8) and arms a timer with
  \<open>min(15000, 500 * 2 ** attempt)\<close> milliseconds; the socket's \<open>onopen\<close> handler puts the
  counter back to zero. The timers armed so far are kept, oldest first, in \<open>timers\<close>.
\<close>

datatype ws_status = Online | Reconnecting | Offline

record observer_conn =
  wsRetryRef :: nat
  wsStatus :: ws_status
  aliveRef :: bool
  timers :: "nat list"

definition baseDelayMs :: nat where
  "baseDelayMs = 500"

definition maxDelayMs :: nat where
  "maxDelayMs = 15000"

definition backoffDelay :: "nat \<Rightarrow> nat" where
  "backoffDelay attempt = min maxDelayMs (baseDelayMs * 2 ^ attempt)"

definition scheduleReconnect :: "observer_conn \<Rightarrow> observer_conn" where
  "scheduleReconnect c =
     (let attempt = min 8 (wsRetryRef c + 1);
          c1 = c\<lparr>wsRetryRef := attempt\<rparr>;
          delay = backoffDelay attempt
      in c1\<lparr>timers := timers c1 @ [delay]\<rparr>)"

definition ws_onopen :: "observer_conn \<Rightarrow> observer_conn" where
  "ws_onopen c = c\<lparr>wsRetryRef := 0, wsStatus := Online\<rparr>"

definition ws_onclose :: "observer_conn \<Rightarrow> observer_conn" where
  "ws_onclose c =
     (if \<not> aliveRef c then c
      else scheduleReconnect (c\<lparr>wsStatus := Reconnecting\<rparr>))"

text \<open>A run of \<open>n\<close> consecutive connection losses, with no successful open in between.\<close>

fun failures :: "nat \<Rightarrow> observer_conn \<Rightarrow> observer_conn" where
  "failures 0 c = c"
| "failures (Suc n) c = failures n (ws_onclose c)"

text \<open>The delays armed by a run of failures: the timers added to those already there.\<close>

definition newDelays :: "nat \<Rightarrow> observer_conn \<Rightarrow> nat list" where
  "newDelays n c = drop (length (timers c)) (timers (failures n c))"

definition freshConn :: observer_conn where
  "freshConn = \<lparr>wsRetryRef = 0, wsStatus = Offline, aliveRef = True, timers = []\<rparr>"

section \<open>Sample runtime and payloads\<close>

text \<open>
  A runtime to evaluate the model on the payloads below: it prints whole numbers in
  decimal, reads unsigned decimal numerals, and maps the case of ASCII letters. The
  payloads need no more.
\<close>

fun showNat :: "nat \<Rightarrow> string" where
  "showNat n =
     (if n < 10 then [''0123456789'' ! n]
      else showNat (n div 10) @ [''0123456789'' ! (n mod 10)])"

declare showNat.simps [simp del]

definition sampleNumberToString :: "jsnum \<Rightarrow> string" where
  "sampleNumberToString n =
     (case n of
        NaN \<Rightarrow> ''NaN''
      | PosInf \<Rightarrow> ''Infinity''
      | NegInf \<Rightarrow> ''-Infinity''
      | Fin q \<Rightarrow> (if q < 0 then ''-'' else []) @ showNat (nat \<lfloor>\<bar>q\<bar>\<rfloor>))"

definition digitValue :: "char \<Rightarrow> nat" where
  "digitValue ch = length (takeWhile (\<lambda>d. d \<noteq> ch) ''0123456789'')"

definition sampleStringToNumber :: "string \<Rightarrow> jsnum" where
  "sampleStringToNumber s =
     (if list_all (\<lambda>ch. ch \<in> set ''0123456789'') s
      then numOfNat (foldl (\<lambda>a ch. 10 * a + digitValue ch) 0 s)
      else NaN)"

definition asciiUpper :: "char \<Rightarrow> char" where
  "asciiUpper ch =
     (case map_of (zip ''abcdefghijklmnopqrstuvwxyz'' ''ABCDEFGHIJKLMNOPQRSTUVWXYZ'') ch of
        Some u \<Rightarrow> u | None \<Rightarrow> ch)"

definition asciiLower :: "char \<Rightarrow> char" where
  "asciiLower ch =
     (case map_of (zip ''ABCDEFGHIJKLMNOPQRSTUVWXYZ'' ''abcdefghijklmnopqrstuvwxyz'') ch of
        Some l \<Rightarrow> l | None \<Rightarrow> ch)"

definition sampleRuntime :: js_runtime where
  "sampleRuntime =
     \<lparr>numberToString = sampleNumberToString, stringToNumber = sampleStringToNumber,
      toUpperCase = map asciiUpper, toLowerCase = map asciiLower\<rparr>"

text \<open>A gateway whose uplink object says the link is down, and one whose link is up.\<close>

definition gatewayLinkDown :: json where
  "gatewayLinkDown =
     JObj [(''id'', JStr ''gw-1''), (''type'', JStr ''gateway''), (''name'', JStr ''USG-Pro-4''),
           (''model'', JStr ''USG-Pro-4''), (''uplink'', JObj [(''up'', JBool False)])]"

definition gatewayLinkUp :: json where
  "gatewayLinkUp =
     JObj [(''id'', JStr ''gw-1''), (''type'', JStr ''gateway''), (''name'', JStr ''USG-Pro-4''),
           (''model'', JStr ''USG-Pro-4''), (''uplink'', JObj [(''up'', JBool True)])]"

text \<open>A WAN network group listing whose primary group is enabled with a positive uptime.\<close>

definition wanGroupsUp :: json where
  "wanGroupsUp =
     JObj [(''wan_network_groups'',
            JArr [JObj [(''id'', JStr ''WAN''), (''name'', JStr ''Internet 1''),
                        (''priority'', JNum (Fin 1)), (''uptime'', JNum (Fin 100)),
                        (''port_info'', JObj [(''disabled'', JBool False),
                                              (''port_idx'', JNum (Fin 1)),
                                              (''port_ifname'', JStr ''eth2'')])]])]"

definition probeSucceeded :: probe_result where
  "probeSucceeded = \<lparr>pr_ok = True, pr_url = ''https://one.one.one.one/cdn-cgi/trace'', pr_ms = Some 23\<rparr>"

definition probeFailed :: probe_result where
  "probeFailed = \<lparr>pr_ok = False, pr_url = ''https://one.one.one.one/cdn-cgi/trace'', pr_ms = None\<rparr>"

text \<open>
  Cycles: the device says down while the listing says up; the link is up and the probe
  fails (no listing); the link is down (no listing); the device query fails and the probe
  succeeds (no listing).
\<close>

definition cycleDeviceDownListingUp :: tick_input where
  "cycleDeviceDownListingUp =
     \<lparr>i_ts = ''2025-01-01T00:00:00.000Z'', i_devices = Inr [gatewayLinkDown],
      i_probe = probeSucceeded, i_wanGroups = Inr wanGroupsUp\<rparr>"

definition cycleProbeFails :: "string \<Rightarrow> tick_input" where
  "cycleProbeFails ts =
     \<lparr>i_ts = ts, i_devices = Inr [gatewayLinkUp], i_probe = probeFailed,
      i_wanGroups = Inl ''HTTP 404''\<rparr>"

definition cycleLinkDown :: tick_input where
  "cycleLinkDown =
     \<lparr>i_ts = ''2025-01-01T00:01:00.000Z'', i_devices = Inr [gatewayLinkDown],
      i_probe = probeSucceeded, i_wanGroups = Inl ''HTTP 404''\<rparr>"

definition cycleDevicesFail :: tick_input where
  "cycleDevicesFail =
     \<lparr>i_ts = ''2025-01-01T00:02:00.000Z'', i_devices = Inl ''HTTP 401 Unauthorized'',
      i_probe = probeSucceeded, i_wanGroups = Inl ''HTTP 401 Unauthorized''\<rparr>"

definition defaultMonitor :: monitor where
  "defaultMonitor = newMonitor (Fin 2) (Fin 4) (Fin 2) (Fin 300)"

text \<open>
  A device whose \<open>model\<close> is an object with an own key \<open>toString\<close>, which \<open>String\<close> cannot
  convert; a cycle whose inventory is that device; the \<open>base\<close> object of the cycle whose
  device query fails; and monitors configured with a maximum history of 2 entries and of
  1.5 entries (\<open>MAX_HISTORY=1.5\<close>).
\<close>

definition deviceUnprintable :: json where
  "deviceUnprintable =
     JObj [(''id'', JStr ''1''), (''model'', JObj [(''toString'', JNum (Fin 1))])]"

definition cycleRejected :: "string \<Rightarrow> tick_input" where
  "cycleRejected ts =
     \<lparr>i_ts = ts, i_devices = Inr [deviceUnprintable], i_probe = probeSucceeded,
      i_wanGroups = Inl ''HTTP 404''\<rparr>"

definition baseDevicesFail :: tick_base where
  "baseDevicesFail =
     \<lparr>b_ts = ''2025-01-01T00:02:00.000Z'', b_probe = probeSucceeded, b_wanUp = None,
      b_wan = JNull, b_wanGroups = JNull, b_unifiError = Some ''HTTP 401 Unauthorized'',
      b_gateway = None\<rparr>"

definition smallMonitor :: monitor where
  "smallMonitor = newMonitor (Fin 2) (Fin 4) (Fin 2) (Fin 2)"

definition fractionalMonitor :: monitor where
  "fractionalMonitor = newMonitor (Fin 2) (Fin 4) (Fin 2) (Fin (3 / 2))"

text \<open>A monitor in state OK, and a pass of the standalone loop whose controller query fails
  while the state machine is in state OK.\<close>

definition knownMonitor :: monitor where
  "knownMonitor = defaultMonitor\<lparr>state := OK, succ := 5\<rparr>"

definition sampleEnv :: env_cfg where
  "sampleEnv =
     \<lparr>PROBE_FAILS_FOR_DEGRADED = Fin 2, PROBE_SUCCESSES_FOR_OK = Fin 2,
      ALERT_WEBHOOK = ''https://hooks.example/alert''\<rparr>"

definition failedPass :: cycle_input where
  "failedPass =
     \<lparr>ci_ts = ''2025-01-01T00:03:00.000Z'', ci_controller = Inl ''HTTP 500 em /api/s/default/stat/device'',
      ci_probe = \<lparr>hp_ok = True, hp_url = ''https://www.google.com/generate_204''\<rparr>,
      ci_mode = Some ''legacy''\<rparr>"

definition okLoop :: loop_state where
  "okLoop =
     \<lparr>l_sm = \<lparr>sm_state = OK, failCount = 0, successCount = 7\<rparr>,
      l_lastNotifiedState = Some OK, l_posted = []\<rparr>"

text \<open>Controllers: one that grants every login and refuses every other request, and one
  that refuses the first two other requests and then answers.\<close>

definition sessionGranted :: http_response where
  "sessionGranted =
     \<lparr>rs_status = 200, rs_setCookies = [''TOKEN=abc; Path=/; HttpOnly''],
      rs_text = ''{}'', rs_json = Some (JObj [])\<rparr>"

definition unauthorized :: http_response where
  "unauthorized =
     \<lparr>rs_status = 401, rs_setCookies = [], rs_text = ''Unauthorized'', rs_json = None\<rparr>"

definition deviceList :: http_response where
  "deviceList =
     \<lparr>rs_status = 200, rs_setCookies = [], rs_text = ''{}'',
      rs_json = Some (JObj [(''data'', JArr [])])\<rparr>"

definition alwaysUnauthorized :: controller where
  "alwaysUnauthorized hist rq =
     (if rq_method rq = ''POST'' then Inr sessionGranted else Inr unauthorized)"

definition unauthorizedTwice :: controller where
  "unauthorizedTwice hist rq =
     (if rq_method rq = ''POST'' then Inr sessionGranted
      else if length (filter (\<lambda>p. rq_method p = ''GET'') hist) < 2 then Inr unauthorized
      else Inr deviceList)"

definition sampleCredentials :: credentials where
  "sampleCredentials = \<lparr>UNIFI_USERNAME = ''monitor'', UNIFI_PASSWORD = ''secret''\<rparr>"

definition sampleClient :: unifi_client where
  "sampleClient = newUniFiClient ''https://192.168.1.1'' ''https://192.168.1.1:8443'' ''auto''"

text \<open>Observer data: three entries, and a tick whose entry repeats the oldest of them.\<close>

definition item :: "string \<Rightarrow> string \<Rightarrow> jsnum option \<Rightarrow> history_item" where
  "item ts st ms =
     \<lparr>hi_ts = ts, hi_state = st, hi_wanUp = Some True,
      hi_probe = Some \<lparr>pc_ok = (ms \<noteq> None), pc_url = None, pc_ms = ms\<rparr>,
      hi_note = None, hi_reason = None, hi_unifiError = None\<rparr>"

definition sampleData :: status_payload where
  "sampleData =
     \<lparr>sp_state = ''OK'', sp_label = ''OK'',
      sp_history = [item ''t3'' ''OK'' (Some (Fin 12)), item ''t2'' ''OK'' (Some (Fin 15)),
                    item ''t1'' ''DEGRADED'' None]\<rparr>"

definition replayedTick :: tick_message where
  "replayedTick =
     \<lparr>tm_entry = item ''t1'' ''DEGRADED'' None, tm_state = Some ''OK'', tm_label = None\<rparr>"

definition freshTick :: tick_message where
  "freshTick =
     \<lparr>tm_entry = item ''t4'' ''OK'' (Some (Fin 9)), tm_state = Some ''OK'', tm_label = Some ''OK''\<rparr>"

section \<open>Verified properties\<close>

subsection \<open>Exceptions\<close>

lemma bindE_Inl [simp]: "bindE (Inl e) f = Inl e"
  by (simp add: bindE_def)

lemma bindE_Inr [simp]: "bindE (Inr x) f = f x"
  by (simp add: bindE_def)

lemma bindE_eq_Inr: "bindE r f = Inr y \<longleftrightarrow> (\<exists>x. r = Inr x \<and> f x = Inr y)"
  by (cases r) simp_all

subsection \<open>Evaluating the sample cycles\<close>

lemma pickGateway_linkDown [simp]: "pickGateway rt [gatewayLinkDown] = Inr gatewayLinkDown"
  by (simp add: pickGateway_def gatewayLinkDown_def)

lemma pickGateway_linkUp [simp]: "pickGateway rt [gatewayLinkUp] = Inr gatewayLinkUp"
  by (simp add: pickGateway_def gatewayLinkUp_def)

lemma pickGateway_Nil [simp]: "pickGateway rt [] = Inr JNull"
  by (simp add: pickGateway_def)

lemma readWanUp_linkDown [simp]: "readWanUp rt gatewayLinkDown = Inr (Some False)"
  by (simp add: readWanUp_def gatewayLinkDown_def)

lemma readWanUp_linkUp [simp]: "readWanUp rt gatewayLinkUp = Inr (Some True)"
  by (simp add: readWanUp_def gatewayLinkUp_def)

lemma readWanUp_JNull [simp]: "readWanUp rt JNull = Inr None"
  by (simp add: readWanUp_def)

lemma deviceVerdict_linkDown [simp]:
  "deviceVerdict rt (Inr [gatewayLinkDown]) = Inr (Some False)"
  by (simp add: deviceVerdict_def)

lemma deviceVerdict_linkUp [simp]:
  "deviceVerdict rt (Inr [gatewayLinkUp]) = Inr (Some True)"
  by (simp add: deviceVerdict_def)

lemma deviceVerdict_failed [simp]: "deviceVerdict rt (Inl err) = Inr None"
  by (simp add: deviceVerdict_def)

lemma deviceVerdict_empty [simp]: "deviceVerdict rt (Inr []) = Inr None"
  by (simp add: deviceVerdict_def)

lemma pickGateway_unprintable [simp]: "pickGateway rt [deviceUnprintable] = Inl TypeError"
  by (simp add: pickGateway_def deviceUnprintable_def coalesce_def nullish_def)

lemma deviceVerdict_rejected [simp]:
  "deviceVerdict rt (i_devices (cycleRejected ts)) = Inl TypeError"
  by (simp add: deviceVerdict_def cycleRejected_def)

lemma wanGroupsUp_isArray [simp]: "isArray (wanGroupsOf wanGroupsUp)"
  by (simp add: wanGroupsOf_def wanGroupsUp_def coalesce_def nullish_def)

lemma pickPrimary_sample:
  "pickPrimaryWanGroup sampleRuntime (wanGroupsOf wanGroupsUp) =
     Inr (JObj [(''id'', JStr ''WAN''), (''name'', JStr ''Internet 1''),
           (''priority'', JNum (Fin 1)), (''uptime'', JNum (Fin 100)),
           (''port_info'', JObj [(''disabled'', JBool False), (''port_idx'', JNum (Fin 1)),
                                 (''port_ifname'', JStr ''eth2'')])])"
  by (simp add: pickPrimaryWanGroup_def wanGroupsOf_def wanGroupsUp_def coalesce_def nullish_def
      sampleRuntime_def asciiUpper_def)

lemma readWanStatus_sample:
  "\<exists>status. readWanStatusFromGroups sampleRuntime (wanGroupsOf wanGroupsUp) = Inr status \<and>
            ws_up status = Some True"
  by (simp add: readWanStatusFromGroups_def pickPrimary_sample Let_def isFinite_def num_gt_def)

lemma listingVerdict_up [simp]:
  "listingVerdict sampleRuntime (Inr wanGroupsUp) = Some True"
  using readWanStatus_sample by (auto simp: listingVerdict_def)

lemma listingVerdict_failed [simp]: "listingVerdict rt (Inl err) = None"
  by (simp add: listingVerdict_def)

subsection \<open>The reconciled WAN verdict\<close>

lemma tickBase_throws:
  "deviceVerdict rt (i_devices inp) = Inl e \<Longrightarrow> tickBase rt inp = Inl e"
  by (auto simp: tickBase_def deviceVerdict_def bindE_def Let_def split: sum.splits)

lemma tickBase_returns:
  assumes "deviceVerdict rt (i_devices inp) = Inr v"
  shows "\<exists>base. tickBase rt inp = Inr base \<and>
           b_wanUp base = (case listingVerdict rt (i_wanGroups inp) of Some b \<Rightarrow> Some b | None \<Rightarrow> v) \<and>
           b_probe base = i_probe inp \<and> b_ts base = i_ts inp \<and>
           b_unifiError base = (case i_devices inp of Inl e \<Rightarrow> Some e | Inr ds \<Rightarrow> None)"
  using assms
  by (auto simp: tickBase_def deviceVerdict_def listingVerdict_def bindE_def Let_def
      split: sum.splits option.splits)

lemma tickBase_Inr:
  assumes "tickBase rt inp = Inr base"
  shows "\<exists>v. deviceVerdict rt (i_devices inp) = Inr v \<and>
           b_wanUp base = (case listingVerdict rt (i_wanGroups inp) of Some b \<Rightarrow> Some b | None \<Rightarrow> v) \<and>
           b_probe base = i_probe inp \<and> b_ts base = i_ts inp \<and>
           b_unifiError base = (case i_devices inp of Inl e \<Rightarrow> Some e | Inr ds \<Rightarrow> None)"
proof (cases "deviceVerdict rt (i_devices inp)")
  case (Inl e)
  then show ?thesis using assms tickBase_throws by fastforce
next
  case (Inr v)
  then show ?thesis using assms tickBase_returns [OF Inr] by auto
qed

text \<open>
  Claim C1, as amended. The WAN network group listing is read after the gateway device and
  overrides it: whenever the listing resolves to a verdict, that verdict is the cycle's
  \<open>wanUp\<close>, whatever the device says; so a device whose explicit link-up field is false
  together with a listing that resolves to up gives \<open>wanUp = true\<close>. The device's field
  decides only when the listing throws, is no array, or does not resolve. (A cycle in which
  reading the device itself throws is rejected and has no verdict.)
\<close>

theorem listing_overrides_device:
  "(i_devices inp = Inr devices \<and> pickGateway rt devices = Inr gw \<and>
    readWanUp rt gw = Inr (Some False) \<and>
    i_wanGroups inp = Inr resp \<and> isArray (wanGroupsOf resp) \<and>
    readWanStatusFromGroups rt (wanGroupsOf resp) = Inr status \<and> ws_up status = Some True
      \<longrightarrow> (\<exists>base. tickBase rt inp = Inr base \<and> b_wanUp base = Some True)) \<and>
   (deviceVerdict rt (i_devices inp) = Inr v \<and> listingVerdict rt (i_wanGroups inp) = Some b
      \<longrightarrow> (\<exists>base. tickBase rt inp = Inr base \<and> b_wanUp base = Some b)) \<and>
   (deviceVerdict rt (i_devices inp) = Inr v \<and> listingVerdict rt (i_wanGroups inp) = None
      \<longrightarrow> (\<exists>base. tickBase rt inp = Inr base \<and> b_wanUp base = v)) \<and>
   (deviceVerdict rt (i_devices inp) = Inl e \<longrightarrow> tickBase rt inp = Inl e)"
proof -
  have 1: "\<exists>base. tickBase rt inp = Inr base \<and> b_wanUp base = Some True"
    if "i_devices inp = Inr devices" "pickGateway rt devices = Inr gw"
      "readWanUp rt gw = Inr (Some False)" "i_wanGroups inp = Inr resp"
      "isArray (wanGroupsOf resp)" "readWanStatusFromGroups rt (wanGroupsOf resp) = Inr status"
      "ws_up status = Some True"
  proof -
    have d: "deviceVerdict rt (i_devices inp) = Inr (Some False)"
      using that by (simp add: deviceVerdict_def)
    have l: "listingVerdict rt (i_wanGroups inp) = Some True"
      using that by (simp add: listingVerdict_def)
    show ?thesis using tickBase_returns [OF d] l by auto
  qed
  have 2: "\<exists>base. tickBase rt inp = Inr base \<and> b_wanUp base = Some b"
    if "deviceVerdict rt (i_devices inp) = Inr v" "listingVerdict rt (i_wanGroups inp) = Some b"
    using tickBase_returns [OF that(1)] that(2) by auto
  have 3: "\<exists>base. tickBase rt inp = Inr base \<and> b_wanUp base = v"
    if "deviceVerdict rt (i_devices inp) = Inr v" "listingVerdict rt (i_wanGroups inp) = None"
    using tickBase_returns [OF that(1)] that(2) by auto
  have 4: "tickBase rt inp = Inl e" if "deviceVerdict rt (i_devices inp) = Inl e"
    using that by (rule tickBase_throws)
  show ?thesis using 1 2 3 4 by blast
qed

theorem listing_overrides_device_witness:
  "pickGateway sampleRuntime [gatewayLinkDown] = Inr gatewayLinkDown \<and>
   readWanUp sampleRuntime gatewayLinkDown = Inr (Some False) \<and>
   isArray (wanGroupsOf wanGroupsUp) \<and>
   (\<exists>status. readWanStatusFromGroups sampleRuntime (wanGroupsOf wanGroupsUp) = Inr status \<and>
             ws_up status = Some True) \<and>
   (\<exists>base. tickBase sampleRuntime cycleDeviceDownListingUp = Inr base \<and> b_wanUp base = Some True) \<and>
   listingVerdict sampleRuntime (i_wanGroups cycleLinkDown) = None \<and>
   (\<exists>base. tickBase sampleRuntime cycleLinkDown = Inr base \<and> b_wanUp base = Some False) \<and>
   deviceVerdict sampleRuntime (i_devices (cycleRejected ''t0'')) = Inl TypeError \<and>
   tickBase sampleRuntime (cycleRejected ''t0'') = Inl TypeError"
proof -
  obtain status where u:
    "readWanStatusFromGroups sampleRuntime (wanGroupsOf wanGroupsUp) = Inr status"
    "ws_up status = Some True"
    using readWanStatus_sample by blast
  have i: "i_devices cycleDeviceDownListingUp = Inr [gatewayLinkDown]"
    "i_wanGroups cycleDeviceDownListingUp = Inr wanGroupsUp"
    by (simp_all add: cycleDeviceDownListingUp_def)
  have 1: "\<exists>base. tickBase sampleRuntime cycleDeviceDownListingUp = Inr base \<and>
                  b_wanUp base = Some True"
    using listing_overrides_device [where inp = cycleDeviceDownListingUp and rt = sampleRuntime
        and devices = "[gatewayLinkDown]" and gw = gatewayLinkDown and resp = wanGroupsUp
        and status = status and v = None and b = True] u i
    by simp
  have l: "listingVerdict sampleRuntime (i_wanGroups cycleLinkDown) = None"
    "deviceVerdict sampleRuntime (i_devices cycleLinkDown) = Inr (Some False)"
    by (simp_all add: cycleLinkDown_def)
  have 2: "\<exists>base. tickBase sampleRuntime cycleLinkDown = Inr base \<and> b_wanUp base = Some False"
    using listing_overrides_device [where inp = cycleLinkDown and rt = sampleRuntime
        and devices = "[gatewayLinkDown]" and gw = gatewayLinkDown and resp = wanGroupsUp
        and status = status and v = "Some False" and b = True] l
    by simp
  have r: "deviceVerdict sampleRuntime (i_devices (cycleRejected ''t0'')) = Inl TypeError"
    by simp
  have 3: "tickBase sampleRuntime (cycleRejected ''t0'') = Inl TypeError"
    using listing_overrides_device [where inp = "cycleRejected ''t0''" and rt = sampleRuntime
        and e = TypeError] r
    by blast
  show ?thesis using u 1 l(1) 2 r 3 by auto
qed

text \<open>
  The gateway's \<open>uplink.up\<close> is the boolean false, the listing resolves to up, and the
  cycle's verdict is not false.
\<close>

theorem explicit_field_loses_counterexample:
  "getProp ''up'' (getProp ''uplink'' gatewayLinkDown) = JBool False \<and>
   pickGateway sampleRuntime [gatewayLinkDown] = Inr gatewayLinkDown \<and>
   readWanUp sampleRuntime gatewayLinkDown = Inr (Some False) \<and>
   listingVerdict sampleRuntime (Inr wanGroupsUp) = Some True \<and>
   map_sum id b_wanUp (tickBase sampleRuntime cycleDeviceDownListingUp) = Inr (Some True) \<and>
   map_sum id b_wanUp (tickBase sampleRuntime cycleDeviceDownListingUp) \<noteq> Inr (Some False)"
proof -
  have d: "deviceVerdict sampleRuntime (i_devices cycleDeviceDownListingUp) = Inr (Some False)"
    by (simp add: cycleDeviceDownListingUp_def)
  have "\<exists>base. tickBase sampleRuntime cycleDeviceDownListingUp = Inr base \<and>
               b_wanUp base = Some True"
    using tickBase_returns [OF d] by (auto simp: cycleDeviceDownListingUp_def)
  then have "map_sum id b_wanUp (tickBase sampleRuntime cycleDeviceDownListingUp) = Inr (Some True)"
    by auto
  moreover have "getProp ''up'' (getProp ''uplink'' gatewayLinkDown) = JBool False"
    by (simp add: gatewayLinkDown_def)
  ultimately show ?thesis by simp
qed

subsection \<open>One cycle of the state machine\<close>

lemma num_ge_numOfNat: "num_ge (numOfNat a) (Fin q) = (q \<le> of_nat a)"
  by (auto simp: num_ge_def numOfNat_def)

lemma num_gt_numOfNat: "num_gt (numOfNat a) (numOfNat b) = (b < a)"
  by (simp add: num_gt_def numOfNat_def)

lemma pushHistory_keeps:
  "state (fst (pushHistory e m)) = state m"
  "fail (fst (pushHistory e m)) = fail m"
  "succ (fst (pushHistory e m)) = succ m"
  "degradedAfterFails (fst (pushHistory e m)) = degradedAfterFails m"
  "downAfterFails (fst (pushHistory e m)) = downAfterFails m"
  "okAfterSucc (fst (pushHistory e m)) = okAfterSucc m"
  "maxHistory (fst (pushHistory e m)) = maxHistory m"
  "lastEntry (fst (pushHistory e m)) = Some e"
  by (simp_all add: pushHistory_def Let_def split: option.splits)

lemma o_monitor_setState:
  "o_monitor (setState next base reason note m) =
     fst (pushHistory \<lparr>e_base = base, e_state = next, e_reason = reason, e_note = note\<rparr>
            (m\<lparr>state := next\<rparr>))"
  by (simp add: setState_def Let_def split: prod.splits option.splits)

lemma o_monitor_softEntry:
  "o_monitor (softEntry base reason note m) =
     fst (pushHistory \<lparr>e_base = base, e_state = state m, e_reason = reason, e_note = note\<rparr> m)"
  by (simp add: softEntry_def Let_def split: prod.splits option.splits)

lemma tickDecide_wanDown:
  assumes "b_wanUp base = Some False"
  shows "state (o_monitor (tickDecide rt base m)) = DOWN"
    and "fail (o_monitor (tickDecide rt base m)) = 0"
    and "succ (o_monitor (tickDecide rt base m)) = 0"
  using assms by (simp_all add: tickDecide_def Let_def o_monitor_setState pushHistory_keeps)

lemma tickDecide_probeFail:
  assumes "b_wanUp base \<noteq> Some False" and "\<not> pr_ok (b_probe base)"
  shows "fail (o_monitor (tickDecide rt base m)) = fail m + 1"
    and "succ (o_monitor (tickDecide rt base m)) = 0"
    and "state (o_monitor (tickDecide rt base m)) =
           (if num_ge (numOfNat (fail m + 1)) (downAfterFails m) then DOWN
            else if num_ge (numOfNat (fail m + 1)) (degradedAfterFails m) then DEGRADED
            else state m)"
  using assms
  by (simp_all add: tickDecide_def Let_def o_monitor_setState o_monitor_softEntry pushHistory_keeps)

lemma tickDecide_probeOk:
  assumes "b_wanUp base \<noteq> Some False" and "pr_ok (b_probe base)"
  shows "succ (o_monitor (tickDecide rt base m)) = succ m + 1"
    and "fail (o_monitor (tickDecide rt base m)) = 0"
    and "state (o_monitor (tickDecide rt base m)) =
           (if state m = UNKNOWN \<or> num_ge (numOfNat (succ m + 1)) (okAfterSucc m) then OK
            else state m)"
  using assms
  by (simp_all add: tickDecide_def Let_def o_monitor_setState o_monitor_softEntry pushHistory_keeps)

lemma tickDecide_config:
  "degradedAfterFails (o_monitor (tickDecide rt base m)) = degradedAfterFails m"
  "downAfterFails (o_monitor (tickDecide rt base m)) = downAfterFails m"
  "okAfterSucc (o_monitor (tickDecide rt base m)) = okAfterSucc m"
  "maxHistory (o_monitor (tickDecide rt base m)) = maxHistory m"
  by (simp_all add: tickDecide_def Let_def o_monitor_setState o_monitor_softEntry pushHistory_keeps)

lemma tickDecide_lastEntry:
  "\<exists>e. lastEntry (o_monitor (tickDecide rt base m)) = Some e \<and> e_base e = base"
  by (simp add: tickDecide_def Let_def o_monitor_setState o_monitor_softEntry pushHistory_keeps)

lemma tickDecide_keeps_known:
  assumes "state m \<noteq> UNKNOWN"
  shows "state (o_monitor (tickDecide rt base m)) \<noteq> UNKNOWN"
proof (cases "b_wanUp base = Some False")
  case True
  then show ?thesis by (simp add: tickDecide_wanDown)
next
  case False
  then show ?thesis using assms
    by (cases "pr_ok (b_probe base)") (simp_all add: tickDecide_probeFail tickDecide_probeOk)
qed

text \<open>The state and the counters after a cycle depend on the base only through the verdict
  and the probe.\<close>

lemma tickDecide_depends:
  assumes "b_wanUp base = b_wanUp base'" and "pr_ok (b_probe base) = pr_ok (b_probe base')"
  shows "state (o_monitor (tickDecide rt base m)) = state (o_monitor (tickDecide rt base' m)) \<and>
         fail (o_monitor (tickDecide rt base m)) = fail (o_monitor (tickDecide rt base' m)) \<and>
         succ (o_monitor (tickDecide rt base m)) = succ (o_monitor (tickDecide rt base' m))"
proof (cases "b_wanUp base = Some False")
  case True
  then show ?thesis using assms by (simp add: tickDecide_wanDown)
next
  case False
  then show ?thesis using assms
    by (cases "pr_ok (b_probe base)") (simp_all add: tickDecide_probeFail tickDecide_probeOk)
qed

lemma runTicks_snoc:
  "runTicks rt (inps @ [inp]) m = o_monitor (tick rt inp (runTicks rt inps m))"
  by (induction inps arbitrary: m) simp_all

lemma tick_returns: "tickBase rt inp = Inr base \<Longrightarrow> tick rt inp m = tickDecide rt base m"
  by (simp add: tick_def)

lemma tick_throws:
  "tickBase rt inp = Inl err \<Longrightarrow>
     tick rt inp m = \<lparr>o_monitor = m, o_changes = [], o_result = Inl err\<rparr>"
  by (simp add: tick_def)

lemma tick_wanDown:
  assumes "tickBase rt inp = Inr base" and "b_wanUp base = Some False"
  shows "state (o_monitor (tick rt inp m)) = DOWN \<and> fail (o_monitor (tick rt inp m)) = 0 \<and>
         succ (o_monitor (tick rt inp m)) = 0"
  using assms by (simp add: tick_returns tickDecide_wanDown)

lemma probeFails_base:
  assumes "probeFails rt inp"
  shows "\<exists>base. tickBase rt inp = Inr base \<and> b_wanUp base \<noteq> Some False \<and> \<not> pr_ok (b_probe base)"
proof (cases "tickBase rt inp")
  case (Inl e)
  then show ?thesis using assms by (simp add: probeFails_def)
next
  case (Inr base)
  then have "b_probe base = i_probe inp" using tickBase_Inr [OF Inr] by blast
  then show ?thesis using assms Inr by (simp add: probeFails_def)
qed

lemma tick_probeFails:
  assumes "probeFails rt inp"
  shows "fail (o_monitor (tick rt inp m)) = fail m + 1"
    and "state (o_monitor (tick rt inp m)) =
           (if num_ge (numOfNat (fail m + 1)) (downAfterFails m) then DOWN
            else if num_ge (numOfNat (fail m + 1)) (degradedAfterFails m) then DEGRADED
            else state m)"
    and "degradedAfterFails (o_monitor (tick rt inp m)) = degradedAfterFails m"
    and "downAfterFails (o_monitor (tick rt inp m)) = downAfterFails m"
proof -
  obtain base where b: "tickBase rt inp = Inr base" "b_wanUp base \<noteq> Some False"
    "\<not> pr_ok (b_probe base)"
    using probeFails_base [OF assms] by blast
  show "fail (o_monitor (tick rt inp m)) = fail m + 1"
    using tickDecide_probeFail(1) [OF b(2,3)] by (simp add: tick_returns [OF b(1)])
  show "state (o_monitor (tick rt inp m)) =
           (if num_ge (numOfNat (fail m + 1)) (downAfterFails m) then DOWN
            else if num_ge (numOfNat (fail m + 1)) (degradedAfterFails m) then DEGRADED
            else state m)"
    using tickDecide_probeFail(3) [OF b(2,3)] by (simp add: tick_returns [OF b(1)])
  show "degradedAfterFails (o_monitor (tick rt inp m)) = degradedAfterFails m"
    by (simp add: tick_returns [OF b(1)] tickDecide_config)
  show "downAfterFails (o_monitor (tick rt inp m)) = downAfterFails m"
    by (simp add: tick_returns [OF b(1)] tickDecide_config)
qed

lemma probeFails_sample [simp]: "probeFails sampleRuntime (cycleProbeFails ts)"
proof -
  have d: "deviceVerdict sampleRuntime (i_devices (cycleProbeFails ts)) = Inr (Some True)"
    by (simp add: cycleProbeFails_def)
  obtain base where b: "tickBase sampleRuntime (cycleProbeFails ts) = Inr base"
    "b_wanUp base = (case listingVerdict sampleRuntime (i_wanGroups (cycleProbeFails ts)) of
                       Some b \<Rightarrow> Some b | None \<Rightarrow> Some True)"
    using tickBase_returns [OF d] by blast
  have "b_wanUp base \<noteq> Some False"
    using b(2) by (simp add: cycleProbeFails_def)
  then show ?thesis using b(1) by (simp add: probeFails_def cycleProbeFails_def probeFailed_def)
qed

subsection \<open>Consecutive probe failures\<close>

text \<open>
  Claim C2, as amended. With degraded-threshold 2 and down-threshold 4, starting from any
  state whose consecutive-fail counter is zero, four consecutive cycles with probe failure
  and \<open>wanUp\<close> true (or unknown) leave the state as it was after the first failure, produce
  DEGRADED after the second and after the third, and DOWN after the fourth.
\<close>

theorem four_probe_failures:
  assumes cfg: "degradedAfterFails m = Fin 2" "downAfterFails m = Fin 4"
    and start: "fail m = 0"
    and fails: "probeFails rt i1" "probeFails rt i2" "probeFails rt i3" "probeFails rt i4"
  shows "state (runTicks rt [i1] m) = state m \<and>
         state (runTicks rt [i1, i2] m) = DEGRADED \<and>
         state (runTicks rt [i1, i2, i3] m) = DEGRADED \<and>
         state (runTicks rt [i1, i2, i3, i4] m) = DOWN"
proof -
  let ?m1 = "o_monitor (tick rt i1 m)"
  let ?m2 = "o_monitor (tick rt i2 ?m1)"
  let ?m3 = "o_monitor (tick rt i3 ?m2)"
  let ?m4 = "o_monitor (tick rt i4 ?m3)"
  have s1: "state ?m1 = state m" "fail ?m1 = 1"
    "degradedAfterFails ?m1 = Fin 2" "downAfterFails ?m1 = Fin 4"
    using cfg start by (simp_all add: tick_probeFails [OF fails(1)] num_ge_numOfNat)
  have s2: "state ?m2 = DEGRADED" "fail ?m2 = 2"
    "degradedAfterFails ?m2 = Fin 2" "downAfterFails ?m2 = Fin 4"
    using s1 by (simp_all add: tick_probeFails [OF fails(2)] num_ge_numOfNat)
  have s3: "state ?m3 = DEGRADED" "fail ?m3 = 3"
    "degradedAfterFails ?m3 = Fin 2" "downAfterFails ?m3 = Fin 4"
    using s2 by (simp_all add: tick_probeFails [OF fails(3)] num_ge_numOfNat)
  have s4: "state ?m4 = DOWN"
    using s3 by (simp_all add: tick_probeFails [OF fails(4)] num_ge_numOfNat)
  show ?thesis using s1 s2 s3 s4 by simp
qed

theorem four_probe_failures_witness:
  "(\<exists>base. tickBase sampleRuntime (cycleProbeFails ''t1'') = Inr base \<and>
           b_wanUp base = Some True) \<and>
   \<not> pr_ok (i_probe (cycleProbeFails ''t1'')) \<and>
   state (runTicks sampleRuntime [cycleProbeFails ''t1''] defaultMonitor) = UNKNOWN \<and>
   state (runTicks sampleRuntime [cycleProbeFails ''t1'', cycleProbeFails ''t2''] defaultMonitor)
     = DEGRADED \<and>
   state (runTicks sampleRuntime
            [cycleProbeFails ''t1'', cycleProbeFails ''t2'', cycleProbeFails ''t3''] defaultMonitor)
     = DEGRADED \<and>
   state (runTicks sampleRuntime
            [cycleProbeFails ''t1'', cycleProbeFails ''t2'', cycleProbeFails ''t3'',
             cycleProbeFails ''t4''] defaultMonitor)
     = DOWN"
proof -
  have d: "deviceVerdict sampleRuntime (i_devices (cycleProbeFails ''t1'')) = Inr (Some True)"
    by (simp add: cycleProbeFails_def)
  have v: "\<exists>base. tickBase sampleRuntime (cycleProbeFails ''t1'') = Inr base \<and>
                  b_wanUp base = Some True"
    using tickBase_returns [OF d] by (auto simp: cycleProbeFails_def)
  have p: "\<not> pr_ok (i_probe (cycleProbeFails ''t1''))"
    by (simp add: cycleProbeFails_def probeFailed_def)
  have c: "degradedAfterFails defaultMonitor = Fin 2" "downAfterFails defaultMonitor = Fin 4"
    "fail defaultMonitor = 0" "state defaultMonitor = UNKNOWN"
    by (simp_all add: defaultMonitor_def newMonitor_def)
  show ?thesis
    using four_probe_failures [OF c(1) c(2) c(3) probeFails_sample probeFails_sample
        probeFails_sample probeFails_sample, of "''t1''" "''t2''" "''t3''" "''t4''"] v p c(4)
    by simp
qed

text \<open>
  From a fresh monitor with thresholds 2 and 4, the first cycle with a failing probe and
  \<open>wanUp\<close> true does not produce DEGRADED: the state stays UNKNOWN.
\<close>

theorem first_failure_not_degraded_counterexample:
  "map_sum id b_wanUp (tickBase sampleRuntime (cycleProbeFails ''t1'')) = Inr (Some True) \<and>
   \<not> pr_ok (i_probe (cycleProbeFails ''t1'')) \<and>
   degradedAfterFails defaultMonitor = Fin 2 \<and> downAfterFails defaultMonitor = Fin 4 \<and>
   state (runTicks sampleRuntime [cycleProbeFails ''t1''] defaultMonitor) \<noteq> DEGRADED"
proof -
  have d: "deviceVerdict sampleRuntime (i_devices (cycleProbeFails ''t1'')) = Inr (Some True)"
    by (simp add: cycleProbeFails_def)
  have "\<exists>base. tickBase sampleRuntime (cycleProbeFails ''t1'') = Inr base \<and>
               b_wanUp base = Some True"
    using tickBase_returns [OF d] by (auto simp: cycleProbeFails_def)
  then have v: "map_sum id b_wanUp (tickBase sampleRuntime (cycleProbeFails ''t1'')) =
                Inr (Some True)"
    by auto
  have p: "\<not> pr_ok (i_probe (cycleProbeFails ''t1''))"
    by (simp add: cycleProbeFails_def probeFailed_def)
  have c: "degradedAfterFails defaultMonitor = Fin 2" "downAfterFails defaultMonitor = Fin 4"
    "fail defaultMonitor = 0" "state defaultMonitor = UNKNOWN"
    by (simp_all add: defaultMonitor_def newMonitor_def)
  have "state (o_monitor (tick sampleRuntime (cycleProbeFails ''t1'') defaultMonitor)) = UNKNOWN"
    using c by (simp add: tick_probeFails [OF probeFails_sample] num_ge_numOfNat)
  then show ?thesis using v p c by simp
qed

subsection \<open>A WAN link that is down\<close>

lemma runUpdates_snoc:
  "runUpdates env (ins @ [(w, p)]) s = update env w p (runUpdates env ins s)"
  by (induction ins arbitrary: s) auto

text \<open>
  Claim C3. Whatever cycles came before and whatever the counters were, a cycle whose
  \<open>wanUp\<close> is false ends in state DOWN with the consecutive-fail and the
  consecutive-success counter both zero, whatever the probe said: in \<open>Monitor.tick\<close>, and
  in \<open>HealthStateMachine.update\<close>.
\<close>

theorem wan_down_forces_down:
  "(tickBase rt inp = Inr base \<and> b_wanUp base = Some False \<longrightarrow>
      state (runTicks rt (inps @ [inp]) m) = DOWN \<and>
      fail (runTicks rt (inps @ [inp]) m) = 0 \<and>
      succ (runTicks rt (inps @ [inp]) m) = 0) \<and>
   runUpdates env (ins @ [(Some False, probed)]) s =
     (runUpdates env ins s)\<lparr>sm_state := DOWN, failCount := 0, successCount := 0\<rparr>"
  using tick_wanDown [of rt inp base "runTicks rt inps m"]
  by (simp add: runTicks_snoc runUpdates_snoc update_def)

theorem wan_down_forces_down_witness:
  "(\<exists>base. tickBase sampleRuntime cycleLinkDown = Inr base \<and> b_wanUp base = Some False) \<and>
   pr_ok (i_probe cycleLinkDown) \<and>
   state (runTicks sampleRuntime [cycleProbeFails ''t1'', cycleLinkDown] defaultMonitor) = DOWN \<and>
   fail (runTicks sampleRuntime [cycleProbeFails ''t1'', cycleLinkDown] defaultMonitor) = 0 \<and>
   succ (runTicks sampleRuntime [cycleProbeFails ''t1'', cycleLinkDown] defaultMonitor) = 0 \<and>
   runUpdates \<lparr>PROBE_FAILS_FOR_DEGRADED = Fin 2, PROBE_SUCCESSES_FOR_OK = Fin 2, ALERT_WEBHOOK = []\<rparr>
     [(Some True, False), (Some False, True)] newHealthStateMachine =
     \<lparr>sm_state = DOWN, failCount = 0, successCount = 0\<rparr>"
proof -
  have d: "deviceVerdict sampleRuntime (i_devices cycleLinkDown) = Inr (Some False)"
    by (simp add: cycleLinkDown_def)
  obtain base where v: "tickBase sampleRuntime cycleLinkDown = Inr base"
    "b_wanUp base = Some False"
    using tickBase_returns [OF d] by (auto simp: cycleLinkDown_def)
  have p: "pr_ok (i_probe cycleLinkDown)"
    by (simp add: cycleLinkDown_def probeSucceeded_def)
  show ?thesis
    using v p wan_down_forces_down [of sampleRuntime cycleLinkDown base "[cycleProbeFails ''t1'']"
        defaultMonitor
        "\<lparr>PROBE_FAILS_FOR_DEGRADED = Fin 2, PROBE_SUCCESSES_FOR_OK = Fin 2, ALERT_WEBHOOK = []\<rparr>"
        "[(Some True, False)]" True newHealthStateMachine]
    by (simp add: update_def newHealthStateMachine_def num_ge_numOfNat)
qed

subsection \<open>The history buffer\<close>

lemma arrayLength_numOfNat: "N < 2 ^ 32 \<Longrightarrow> arrayLength (numOfNat N) = Some N"
proof -
  assume a: "N < 2 ^ 32"
  have "(of_nat N :: rat) < of_nat (2 ^ 32)" using a by (simp only: of_nat_less_iff)
  then have "(of_nat N :: rat) < 2 ^ 32" by simp
  then show ?thesis by (simp add: arrayLength_def numOfNat_def)
qed

lemma floor_three_halves: "\<lfloor>3 / 2 :: rat\<rfloor> = 1"
  by (simp add: floor_eq_iff)

lemma arrayLength_fractional: "arrayLength (Fin (3 / 2)) = None"
  by (simp add: arrayLength_def floor_three_halves)

lemma arrayLength_Some:
  assumes "arrayLength x = Some N"
  shows "x = numOfNat N"
proof -
  obtain q where q: "x = Fin q" "0 \<le> q" "\<exists>n. q = rat_of_int n" "N = nat \<lfloor>q\<rfloor>"
    using assms by (auto simp: arrayLength_def split: jsnum.splits if_splits)
  have i: "rat_of_int \<lfloor>q\<rfloor> = q" using q(3) by auto
  have "0 \<le> \<lfloor>q\<rfloor>" using q(2) by simp
  then have "(of_nat N :: rat) = of_int \<lfloor>q\<rfloor>" using q(4) by simp
  then show ?thesis using q(1) i by (simp add: numOfNat_def)
qed

lemma pushHistory_valid:
  assumes "arrayLength (maxHistory m) = Some N"
  shows "pushHistory e m = (m\<lparr>history := take N (e # history m), lastEntry := Some e\<rparr>, None)"
proof -
  have mh: "maxHistory m = numOfNat N" using assms by (rule arrayLength_Some)
  show ?thesis
  proof (cases "N < Suc (length (history m))")
    case True
    then show ?thesis using assms mh
      by (simp add: pushHistory_def Let_def num_gt_numOfNat)
  next
    case False
    then have "take N (e # history m) = e # history m" by simp
    then show ?thesis using mh False
      by (simp add: pushHistory_def Let_def num_gt_numOfNat)
  qed
qed

lemma pushHistory_invalid:
  assumes "arrayLength (maxHistory m) = None"
  shows "fst (pushHistory e m) = m\<lparr>history := e # history m, lastEntry := Some e\<rparr>"
  using assms by (simp add: pushHistory_def Let_def)

lemma tickDecide_history:
  assumes "arrayLength (maxHistory m) = Some N"
  shows "\<exists>e. lastEntry (o_monitor (tickDecide rt base m)) = Some e \<and> e_base e = base \<and>
             history (o_monitor (tickDecide rt base m)) = take N (e # history m)"
  using assms
  by (simp add: tickDecide_def Let_def o_monitor_setState o_monitor_softEntry pushHistory_valid)

lemma tickDecide_history_invalid:
  assumes "arrayLength (maxHistory m) = None"
  shows "\<exists>e. lastEntry (o_monitor (tickDecide rt base m)) = Some e \<and> e_base e = base \<and>
             history (o_monitor (tickDecide rt base m)) = e # history m"
  using assms
  by (simp add: tickDecide_def Let_def o_monitor_setState o_monitor_softEntry pushHistory_invalid)

lemma tick_maxHistory: "maxHistory (o_monitor (tick rt inp m)) = maxHistory m"
  by (cases "tickBase rt inp") (simp_all add: tick_def tickDecide_config)

lemma take_append_take: "take n (xs @ take n ys) = take n (xs @ ys)"
  by (simp add: min_def)

lemma inserting_throws: "tickBase rt inp = Inl err \<Longrightarrow> inserting rt (inp # inps) = inserting rt inps"
  by (simp add: inserting_def)

lemma inserting_returns:
  "tickBase rt inp = Inr base \<Longrightarrow> inserting rt (inp # inps) = inp # inserting rt inps"
  by (simp add: inserting_def)

lemma entriesOf_throws:
  "tickBase rt inp = Inl err \<Longrightarrow> entriesOf rt (inp # inps) m = entriesOf rt inps m"
  by (simp add: tick_def)

lemma runTicks_throws:
  "tickBase rt inp = Inl err \<Longrightarrow> runTicks rt (inp # inps) m = runTicks rt inps m"
  by (simp add: tick_def)

lemma entriesOf_returns:
  assumes "tickBase rt inp = Inr base"
    and "lastEntry (o_monitor (tickDecide rt base m)) = Some e"
  shows "entriesOf rt (inp # inps) m = e # entriesOf rt inps (o_monitor (tickDecide rt base m))"
  using assms by (simp add: tick_def)

lemma runTicks_returns:
  "tickBase rt inp = Inr base \<Longrightarrow>
     runTicks rt (inp # inps) m = runTicks rt inps (o_monitor (tickDecide rt base m))"
  by (simp add: tick_def)

lemma runTicks_history_inv:
  assumes "arrayLength (maxHistory m) = Some N" and "length (history m) \<le> N"
  shows "history (runTicks rt inps m) = take N (rev (entriesOf rt inps m) @ history m)"
  using assms
proof (induction inps arbitrary: m)
  case Nil
  then show ?case by simp
next
  case (Cons inp inps)
  show ?case
  proof (cases "tickBase rt inp")
    case (Inl err)
    show ?thesis
      unfolding entriesOf_throws [OF Inl] runTicks_throws [OF Inl]
      by (rule Cons.IH [OF Cons.prems])
  next
    case (Inr base)
    let ?m1 = "o_monitor (tickDecide rt base m)"
    obtain e where e: "lastEntry ?m1 = Some e" "history ?m1 = take N (e # history m)"
      using tickDecide_history [OF Cons.prems(1)] by blast
    have mh: "arrayLength (maxHistory ?m1) = Some N"
      using Cons.prems(1) by (simp add: tickDecide_config)
    have len: "length (history ?m1) \<le> N" using e by simp
    have "history (runTicks rt inps ?m1) = take N (rev (entriesOf rt inps ?m1) @ history ?m1)"
      by (rule Cons.IH [OF mh len])
    also have "\<dots> = take N (rev (entriesOf rt inps ?m1) @ e # history m)"
      unfolding e by (rule take_append_take)
    finally show ?thesis
      unfolding entriesOf_returns [OF Inr e(1)] runTicks_returns [OF Inr] by simp
  qed
qed

lemma runTicks_history_inserting:
  assumes "arrayLength (maxHistory m) = Some N" and "inserting rt inps \<noteq> []"
  shows "history (runTicks rt inps m) = take N (rev (entriesOf rt inps m) @ history m)"
  using assms
proof (induction inps arbitrary: m)
  case Nil
  then show ?case by (simp add: inserting_def)
next
  case (Cons inp inps)
  show ?case
  proof (cases "tickBase rt inp")
    case (Inl err)
    have "inserting rt inps \<noteq> []" using Cons.prems(2) by (simp add: inserting_throws [OF Inl])
    then show ?thesis
      unfolding entriesOf_throws [OF Inl] runTicks_throws [OF Inl]
      by (rule Cons.IH [OF Cons.prems(1)])
  next
    case (Inr base)
    let ?m1 = "o_monitor (tickDecide rt base m)"
    obtain e where e: "lastEntry ?m1 = Some e" "history ?m1 = take N (e # history m)"
      using tickDecide_history [OF Cons.prems(1)] by blast
    have mh: "arrayLength (maxHistory ?m1) = Some N"
      using Cons.prems(1) by (simp add: tickDecide_config)
    have len: "length (history ?m1) \<le> N" using e by simp
    have "history (runTicks rt inps ?m1) = take N (rev (entriesOf rt inps ?m1) @ history ?m1)"
      by (rule runTicks_history_inv [OF mh len])
    also have "\<dots> = take N (rev (entriesOf rt inps ?m1) @ e # history m)"
      unfolding e by (rule take_append_take)
    finally show ?thesis
      unfolding entriesOf_returns [OF Inr e(1)] runTicks_returns [OF Inr] by simp
  qed
qed

lemma runTicks_history:
  assumes "arrayLength (maxHistory m) = Some N"
    and "inserting rt inps \<noteq> [] \<or> length (history m) \<le> N"
  shows "history (runTicks rt inps m) = take N (rev (entriesOf rt inps m) @ history m)"
  using assms runTicks_history_inv runTicks_history_inserting by blast

lemma runTicks_history_invalid:
  assumes "arrayLength (maxHistory m) = None"
  shows "history (runTicks rt inps m) = rev (entriesOf rt inps m) @ history m"
  using assms
proof (induction inps arbitrary: m)
  case Nil
  then show ?case by simp
next
  case (Cons inp inps)
  show ?case
  proof (cases "tickBase rt inp")
    case (Inl err)
    show ?thesis
      unfolding entriesOf_throws [OF Inl] runTicks_throws [OF Inl]
      by (rule Cons.IH [OF Cons.prems])
  next
    case (Inr base)
    let ?m1 = "o_monitor (tickDecide rt base m)"
    obtain e where e: "lastEntry ?m1 = Some e" "history ?m1 = e # history m"
      using tickDecide_history_invalid [OF Cons.prems(1)] by blast
    have mh: "arrayLength (maxHistory ?m1) = None"
      using Cons.prems(1) by (simp add: tickDecide_config)
    have "history (runTicks rt inps ?m1) = rev (entriesOf rt inps ?m1) @ history ?m1"
      by (rule Cons.IH [OF mh])
    then show ?thesis
      unfolding entriesOf_returns [OF Inr e(1)] runTicks_returns [OF Inr] e(2) by simp
  qed
qed

lemma entriesOf_base:
  "map (\<lambda>e. Inr (e_base e)) (entriesOf rt inps m) = map (tickBase rt) (inserting rt inps)"
proof (induction inps arbitrary: m)
  case Nil
  then show ?case by (simp add: inserting_def)
next
  case (Cons inp inps)
  show ?case
  proof (cases "tickBase rt inp")
    case (Inl err)
    show ?thesis
      unfolding entriesOf_throws [OF Inl] inserting_throws [OF Inl] by (rule Cons.IH)
  next
    case (Inr base)
    obtain e where e: "lastEntry (o_monitor (tickDecide rt base m)) = Some e" "e_base e = base"
      using tickDecide_lastEntry by blast
    show ?thesis
      unfolding entriesOf_returns [OF Inr e(1)] inserting_returns [OF Inr]
      using Cons.IH e(2) Inr by simp
  qed
qed

lemma entriesOf_length: "length (entriesOf rt inps m) = length (inserting rt inps)"
proof -
  have "length (map (\<lambda>e. Inr (e_base e) :: js_error + tick_base) (entriesOf rt inps m)) =
        length (map (tickBase rt) (inserting rt inps))"
    by (simp only: entriesOf_base)
  then show ?thesis by simp
qed

lemma entriesOf_ts: "map (b_ts \<circ> e_base) (entriesOf rt inps m) = map i_ts (inserting rt inps)"
proof (induction inps arbitrary: m)
  case Nil
  then show ?case by (simp add: inserting_def)
next
  case (Cons inp inps)
  show ?case
  proof (cases "tickBase rt inp")
    case (Inl err)
    show ?thesis
      unfolding entriesOf_throws [OF Inl] inserting_throws [OF Inl] by (rule Cons.IH)
  next
    case (Inr base)
    obtain e where e: "lastEntry (o_monitor (tickDecide rt base m)) = Some e" "e_base e = base"
      using tickDecide_lastEntry by blast
    have ts: "b_ts base = i_ts inp" using tickBase_Inr [OF Inr] by blast
    show ?thesis
      unfolding entriesOf_returns [OF Inr e(1)] inserting_returns [OF Inr]
      using Cons.IH e(2) ts by simp
  qed
qed

lemma tickBase_cycleProbeFails: "\<exists>base. tickBase sampleRuntime (cycleProbeFails ts) = Inr base"
proof -
  have "deviceVerdict sampleRuntime (i_devices (cycleProbeFails ts)) = Inr (Some True)"
    by (simp add: cycleProbeFails_def)
  then show ?thesis using tickBase_returns by blast
qed

lemma tickBase_cycleRejected: "tickBase sampleRuntime (cycleRejected ts) = Inl TypeError"
  by (rule tickBase_throws) simp

lemma inserting_cycleProbeFails:
  "inserting sampleRuntime (cycleProbeFails ts # inps) = cycleProbeFails ts # inserting sampleRuntime inps"
  using tickBase_cycleProbeFails [of ts] inserting_returns by blast

lemma inserting_cycleRejected:
  "inserting sampleRuntime (cycleRejected ts # inps) = inserting sampleRuntime inps"
  using tickBase_cycleRejected inserting_throws by blast

lemma inserting_Nil: "inserting rt [] = []"
  by (simp add: inserting_def)

lemma i_ts_cycleProbeFails: "i_ts (cycleProbeFails ts) = ts"
  by (simp add: cycleProbeFails_def)

lemma map_rev_ts: "map f es = ts \<Longrightarrow> h = rev es @ [] \<Longrightarrow> map f h = rev ts"
  by (auto simp: rev_map)

lemma map_take_rev_ts: "map f es = ts \<Longrightarrow> h = take n (rev es @ []) \<Longrightarrow> map f h = take n (rev ts)"
  by (auto simp: rev_map take_map)

text \<open>
  Claim C6, as amended. A cycle that is rejected by a coercion (a TypeError, before the
  state machine runs) inserts nothing; every other cycle inserts exactly one entry, the one
  built on its \<open>base\<close>. When the configured maximum is an array length \<open>N\<close> (an integer from
  0 to \<open>2^32 - 1\<close>), then after any sequence of cycles (with at least one insertion, or
  from a buffer within its capacity) the buffer holds at most \<open>N\<close> entries: the newest \<open>N\<close>
  of the inserted entries followed by what was there, newest first; and after \<open>N + 1\<close>
  insertions into an empty buffer it is all inserted entries but the oldest, newest first.
  When the configured maximum is no array length (1.5, -1, NaN), nothing is ever dropped:
  the buffer is every inserted entry, newest first, followed by what was there.
\<close>

theorem history_bounded_newest_first:
  "(arrayLength (maxHistory m) = Some N \<and>
    (inserting rt inps \<noteq> [] \<or> length (history m) \<le> N) \<longrightarrow>
      length (history (runTicks rt inps m)) \<le> N \<and>
      history (runTicks rt inps m) = take N (rev (entriesOf rt inps m) @ history m) \<and>
      (history m = [] \<and> length (inserting rt inps) = N + 1 \<longrightarrow>
         history (runTicks rt inps m) = rev (tl (entriesOf rt inps m)))) \<and>
   (arrayLength (maxHistory m) = None \<longrightarrow>
      history (runTicks rt inps m) = rev (entriesOf rt inps m) @ history m) \<and>
   map (\<lambda>e. Inr (e_base e)) (entriesOf rt inps m) = map (tickBase rt) (inserting rt inps) \<and>
   length (entriesOf rt inps m) = length (inserting rt inps)"
proof -
  have l: "length (entriesOf rt inps m) = length (inserting rt inps)"
    by (rule entriesOf_length)
  have v: "length (history (runTicks rt inps m)) \<le> N \<and>
           history (runTicks rt inps m) = take N (rev (entriesOf rt inps m) @ history m) \<and>
           (history m = [] \<and> length (inserting rt inps) = N + 1 \<longrightarrow>
              history (runTicks rt inps m) = rev (tl (entriesOf rt inps m)))"
    if mh: "arrayLength (maxHistory m) = Some N"
      and ne: "inserting rt inps \<noteq> [] \<or> length (history m) \<le> N"
  proof -
    have h: "history (runTicks rt inps m) = take N (rev (entriesOf rt inps m) @ history m)"
      by (rule runTicks_history [OF mh ne])
    have b: "length (history (runTicks rt inps m)) \<le> N" unfolding h by simp
    have o: "history (runTicks rt inps m) = rev (tl (entriesOf rt inps m))"
      if "history m = []" and "length (inserting rt inps) = N + 1"
    proof -
      let ?es = "entriesOf rt inps m"
      have "take N (rev ?es) = rev (drop (length ?es - N) ?es)"
        by (simp add: take_rev)
      also have "\<dots> = rev (tl ?es)" using l that by (simp add: drop_Suc)
      finally show ?thesis using h that by simp
    qed
    show ?thesis using h b o by blast
  qed
  have i: "history (runTicks rt inps m) = rev (entriesOf rt inps m) @ history m"
    if "arrayLength (maxHistory m) = None"
    by (rule runTicks_history_invalid [OF that])
  have b: "map (\<lambda>e. Inr (e_base e)) (entriesOf rt inps m) = map (tickBase rt) (inserting rt inps)"
    by (rule entriesOf_base)
  show ?thesis using l v i b by blast
qed

theorem history_bounded_newest_first_witness:
  "arrayLength (maxHistory smallMonitor) = Some 2 \<and>
   inserting sampleRuntime
     [cycleProbeFails ''t1'', cycleRejected ''t2'', cycleProbeFails ''t3'', cycleProbeFails ''t4'']
     = [cycleProbeFails ''t1'', cycleProbeFails ''t3'', cycleProbeFails ''t4''] \<and>
   length (history (runTicks sampleRuntime
      [cycleProbeFails ''t1'', cycleRejected ''t2'', cycleProbeFails ''t3'', cycleProbeFails ''t4'']
      smallMonitor)) \<le> 2 \<and>
   history (runTicks sampleRuntime
      [cycleProbeFails ''t1'', cycleRejected ''t2'', cycleProbeFails ''t3'', cycleProbeFails ''t4'']
      smallMonitor) =
     rev (tl (entriesOf sampleRuntime
      [cycleProbeFails ''t1'', cycleRejected ''t2'', cycleProbeFails ''t3'', cycleProbeFails ''t4'']
      smallMonitor)) \<and>
   map (b_ts \<circ> e_base) (history (runTicks sampleRuntime
      [cycleProbeFails ''t1'', cycleRejected ''t2'', cycleProbeFails ''t3'', cycleProbeFails ''t4'']
      smallMonitor)) = [''t4'', ''t3''] \<and>
   arrayLength (maxHistory fractionalMonitor) = None \<and>
   map (b_ts \<circ> e_base) (history (runTicks sampleRuntime
      [cycleProbeFails ''t1'', cycleProbeFails ''t2'', cycleProbeFails ''t3''] fractionalMonitor))
     = [''t3'', ''t2'', ''t1'']"
proof -
  let ?inps = "[cycleProbeFails ''t1'', cycleRejected ''t2'', cycleProbeFails ''t3'',
                cycleProbeFails ''t4'']"
  let ?more = "[cycleProbeFails ''t1'', cycleProbeFails ''t2'', cycleProbeFails ''t3'']"
  have mh: "arrayLength (maxHistory smallMonitor) = Some 2" and e: "history smallMonitor = []"
    by (simp_all add: smallMonitor_def newMonitor_def arrayLength_def)
  have fh: "arrayLength (maxHistory fractionalMonitor) = None"
    and fe: "history fractionalMonitor = []"
    by (simp_all add: fractionalMonitor_def newMonitor_def arrayLength_fractional)
  have ins: "inserting sampleRuntime ?inps =
             [cycleProbeFails ''t1'', cycleProbeFails ''t3'', cycleProbeFails ''t4'']"
    by (simp only: inserting_cycleProbeFails inserting_cycleRejected inserting_Nil)
  have ins': "inserting sampleRuntime ?more = ?more"
    by (simp only: inserting_cycleProbeFails inserting_Nil)
  have ts: "map (b_ts \<circ> e_base) (entriesOf sampleRuntime ?inps smallMonitor) =
            [''t1'', ''t3'', ''t4'']"
    unfolding entriesOf_ts ins by (simp add: i_ts_cycleProbeFails)
  have ts': "map (b_ts \<circ> e_base) (entriesOf sampleRuntime ?more fractionalMonitor) =
             [''t1'', ''t2'', ''t3'']"
    unfolding entriesOf_ts ins' by (simp add: i_ts_cycleProbeFails)
  have ne: "inserting sampleRuntime ?inps \<noteq> [] \<or> length (history smallMonitor) \<le> 2"
    unfolding ins by simp
  note T = history_bounded_newest_first [of smallMonitor 2 sampleRuntime ?inps]
  have le: "length (history (runTicks sampleRuntime ?inps smallMonitor)) \<le> 2"
    using T mh ne by blast
  have "history (runTicks sampleRuntime ?inps smallMonitor) =
        take 2 (rev (entriesOf sampleRuntime ?inps smallMonitor) @ history smallMonitor)"
    using T mh ne by blast
  then have "history (runTicks sampleRuntime ?inps smallMonitor) =
        take 2 (rev (entriesOf sampleRuntime ?inps smallMonitor) @ [])"
    unfolding e .
  then have "map (b_ts \<circ> e_base) (history (runTicks sampleRuntime ?inps smallMonitor)) =
             take 2 (rev [''t1'', ''t3'', ''t4''])"
    by (rule map_take_rev_ts [OF ts])
  then have h: "map (b_ts \<circ> e_base) (history (runTicks sampleRuntime ?inps smallMonitor)) =
                [''t4'', ''t3'']"
    by simp
  have n1: "length (inserting sampleRuntime ?inps) = 2 + 1" unfolding ins by simp
  have o: "history (runTicks sampleRuntime ?inps smallMonitor) =
           rev (tl (entriesOf sampleRuntime ?inps smallMonitor))"
    using T mh ne e n1 by blast
  note U = history_bounded_newest_first [of fractionalMonitor 0 sampleRuntime ?more]
  have "history (runTicks sampleRuntime ?more fractionalMonitor) =
        rev (entriesOf sampleRuntime ?more fractionalMonitor) @ history fractionalMonitor"
    using U fh by blast
  then have "history (runTicks sampleRuntime ?more fractionalMonitor) =
        rev (entriesOf sampleRuntime ?more fractionalMonitor) @ []"
    unfolding fe .
  then have "map (b_ts \<circ> e_base) (history (runTicks sampleRuntime ?more fractionalMonitor)) =
             rev [''t1'', ''t2'', ''t3'']"
    by (rule map_rev_ts [OF ts'])
  then have h': "map (b_ts \<circ> e_base) (history (runTicks sampleRuntime ?more fractionalMonitor)) =
                 [''t3'', ''t2'', ''t1'']"
    by simp
  show ?thesis using mh ins le o h fh h' by blast
qed

text \<open>
  With \<open>MAX_HISTORY=1.5\<close> the buffer is not bounded by the configured maximum: from the
  second insertion on, \<open>pushHistory\<close> throws a RangeError after it has put the entry in,
  and after three cycles the buffer holds three entries.
\<close>

theorem history_exceeds_maximum_counterexample:
  "maxHistory fractionalMonitor = Fin (3 / 2) \<and>
   length (history (runTicks sampleRuntime
      [cycleProbeFails ''t1'', cycleProbeFails ''t2'', cycleProbeFails ''t3''] fractionalMonitor))
     = 3 \<and>
   num_gt (numOfNat 3) (maxHistory fractionalMonitor)"
proof -
  let ?more = "[cycleProbeFails ''t1'', cycleProbeFails ''t2'', cycleProbeFails ''t3'']"
  have fm: "maxHistory fractionalMonitor = Fin (3 / 2)"
    and fh: "arrayLength (maxHistory fractionalMonitor) = None"
    and fe: "history fractionalMonitor = []"
    by (simp_all add: fractionalMonitor_def newMonitor_def arrayLength_fractional)
  have ins: "inserting sampleRuntime ?more = ?more"
    by (simp only: inserting_cycleProbeFails inserting_Nil)
  have "length (entriesOf sampleRuntime ?more fractionalMonitor) = length ?more"
    unfolding entriesOf_length ins ..
  then have l: "length (entriesOf sampleRuntime ?more fractionalMonitor) = 3" by simp
  have "history (runTicks sampleRuntime ?more fractionalMonitor) =
        rev (entriesOf sampleRuntime ?more fractionalMonitor) @ history fractionalMonitor"
    by (rule runTicks_history_invalid [OF fh])
  then have "length (history (runTicks sampleRuntime ?more fractionalMonitor)) =
             length (entriesOf sampleRuntime ?more fractionalMonitor)"
    unfolding fe by simp
  then have "length (history (runTicks sampleRuntime ?more fractionalMonitor)) = 3"
    using l by simp
  moreover have "num_gt (numOfNat 3) (maxHistory fractionalMonitor)"
    unfolding fm by (simp add: num_gt_def numOfNat_def)
  ultimately show ?thesis using fm by blast
qed

subsection \<open>A cycle whose controller query fails\<close>

lemma mainCycle_failure:
  assumes "ci_controller inp = Inl msg"
  shows "l_sm (mainCycle rt env inp l) = (l_sm l)\<lparr>sm_state := UNKNOWN\<rparr> \<and>
         newPosted l (mainCycle rt env inp l) =
           (if sm_state (l_sm l) \<noteq> UNKNOWN \<and> ALERT_WEBHOOK env \<noteq> []
            then [UnknownAlert msg (ci_ts inp)] else [])"
  using assms by (simp add: mainCycle_def cycleFailed_def newPosted_def postWebhook_def Let_def)

lemma tickBase_devices_failed:
  assumes "i_devices inp = Inl err"
  shows "\<exists>base. tickBase rt inp = Inr base \<and>
           b_unifiError base = Some err \<and>
           b_probe base = i_probe inp \<and>
           b_gateway base = None \<and>
           b_wanUp base = listingVerdict rt (i_wanGroups inp)"
  using assms
  by (auto simp: tickBase_def listingVerdict_def Let_def split: sum.splits option.splits)

lemma setState_entry:
  "\<exists>e. lastEntry (o_monitor (setState next base reason note m)) = Some e \<and> e_base e = base \<and>
       (\<forall>r. o_result (setState next base reason note m) = Inr r \<longrightarrow> r_entry r = e)"
  by (auto simp: setState_def Let_def pushHistory_def split: option.splits)

lemma softEntry_entry:
  "\<exists>e. lastEntry (o_monitor (softEntry base reason note m)) = Some e \<and> e_base e = base \<and>
       (\<forall>r. o_result (softEntry base reason note m) = Inr r \<longrightarrow> r_entry r = e)"
  by (auto simp: softEntry_def Let_def pushHistory_def split: option.splits)

lemma tickDecide_entry:
  "\<exists>e. lastEntry (o_monitor (tickDecide rt base m)) = Some e \<and> e_base e = base \<and>
       (\<forall>r. o_result (tickDecide rt base m) = Inr r \<longrightarrow> r_entry r = e)"
  by (simp add: tickDecide_def Let_def setState_entry softEntry_entry)

lemma tick_same_as_empty_inventory:
  "state (o_monitor (tick rt inp m)) = state (o_monitor (tick rt (inp\<lparr>i_devices := Inr []\<rparr>) m)) \<and>
   fail (o_monitor (tick rt inp m)) = fail (o_monitor (tick rt (inp\<lparr>i_devices := Inr []\<rparr>) m)) \<and>
   succ (o_monitor (tick rt inp m)) = succ (o_monitor (tick rt (inp\<lparr>i_devices := Inr []\<rparr>) m))"
  if "i_devices inp = Inl err"
proof -
  let ?inp' = "inp\<lparr>i_devices := Inr []\<rparr>"
  have d: "deviceVerdict rt (i_devices inp) = Inr None"
    "deviceVerdict rt (i_devices ?inp') = Inr None"
    using that by simp_all
  obtain base where b: "tickBase rt inp = Inr base"
    "b_wanUp base = (case listingVerdict rt (i_wanGroups inp) of Some b \<Rightarrow> Some b | None \<Rightarrow> None)"
    "b_probe base = i_probe inp"
    using tickBase_returns [OF d(1)] by blast
  obtain base' where b': "tickBase rt ?inp' = Inr base'"
    "b_wanUp base' = (case listingVerdict rt (i_wanGroups ?inp') of Some b \<Rightarrow> Some b | None \<Rightarrow> None)"
    "b_probe base' = i_probe ?inp'"
    using tickBase_returns [OF d(2)] by blast
  have w: "b_wanUp base = b_wanUp base'" using b(2) b'(2) by simp
  have p: "pr_ok (b_probe base) = pr_ok (b_probe base')" using b(3) b'(3) by simp
  show ?thesis
    unfolding tick_returns [OF b(1)] tick_returns [OF b'(1)]
    by (rule tickDecide_depends [OF w p])
qed

text \<open>
  Claim C5, as amended. In \<open>Monitor.tick\<close>, a cycle whose device query fails is not
  aborted: the cycle produces its record, which carries the controller error string and
  the probe result; no gateway is selected, so the device contributes no verdict and the
  cycle's \<open>wanUp\<close> is the verdict of the WAN group listing (unknown when that fails too).
  The state is not forced to UNKNOWN: it moves exactly as in a cycle whose device
  inventory came back empty, and a state other than UNKNOWN never becomes UNKNOWN. In the
  standalone loop of \<open>unifi-monitor.mjs\<close>, a pass whose controller query fails skips the
  state-machine update (the counters stay), sets the state to UNKNOWN, and, if the state was
  not UNKNOWN already and a webhook is configured, posts exactly one alert.
\<close>

theorem controller_failure_cycle:
  "(i_devices inp = Inl err \<longrightarrow>
      (\<exists>base. tickBase rt inp = Inr base \<and>
         b_unifiError base = Some err \<and>
         b_probe base = i_probe inp \<and>
         b_gateway base = None \<and>
         b_wanUp base = listingVerdict rt (i_wanGroups inp) \<and>
         (\<exists>e. lastEntry (o_monitor (tick rt inp m)) = Some e \<and> e_base e = base \<and>
              (\<forall>r. o_result (tick rt inp m) = Inr r \<longrightarrow> r_entry r = e))) \<and>
      state (o_monitor (tick rt inp m)) =
        state (o_monitor (tick rt (inp\<lparr>i_devices := Inr []\<rparr>) m)) \<and>
      (state m \<noteq> UNKNOWN \<longrightarrow> state (o_monitor (tick rt inp m)) \<noteq> UNKNOWN)) \<and>
   (ci_controller cin = Inl msg \<longrightarrow>
      l_sm (mainCycle rt env cin l) = (l_sm l)\<lparr>sm_state := UNKNOWN\<rparr> \<and>
      newPosted l (mainCycle rt env cin l) =
        (if sm_state (l_sm l) \<noteq> UNKNOWN \<and> ALERT_WEBHOOK env \<noteq> []
         then [UnknownAlert msg (ci_ts cin)] else []))"
proof -
  have t: "(\<exists>base. tickBase rt inp = Inr base \<and>
              b_unifiError base = Some err \<and>
              b_probe base = i_probe inp \<and>
              b_gateway base = None \<and>
              b_wanUp base = listingVerdict rt (i_wanGroups inp) \<and>
              (\<exists>e. lastEntry (o_monitor (tick rt inp m)) = Some e \<and> e_base e = base \<and>
                   (\<forall>r. o_result (tick rt inp m) = Inr r \<longrightarrow> r_entry r = e))) \<and>
           (state m \<noteq> UNKNOWN \<longrightarrow> state (o_monitor (tick rt inp m)) \<noteq> UNKNOWN)"
    if f: "i_devices inp = Inl err"
  proof -
    obtain base where b: "tickBase rt inp = Inr base" "b_unifiError base = Some err"
      "b_probe base = i_probe inp" "b_gateway base = None"
      "b_wanUp base = listingVerdict rt (i_wanGroups inp)"
      using tickBase_devices_failed [OF f] by blast
    have e: "\<exists>e. lastEntry (o_monitor (tick rt inp m)) = Some e \<and> e_base e = base \<and>
                 (\<forall>r. o_result (tick rt inp m) = Inr r \<longrightarrow> r_entry r = e)"
      unfolding tick_returns [OF b(1)] by (rule tickDecide_entry)
    have k: "state m \<noteq> UNKNOWN \<longrightarrow> state (o_monitor (tick rt inp m)) \<noteq> UNKNOWN"
      unfolding tick_returns [OF b(1)] by (simp add: tickDecide_keeps_known)
    show ?thesis using b e k by blast
  qed
  show ?thesis
    using t tick_same_as_empty_inventory [of inp err rt m] mainCycle_failure [of cin msg rt env l]
    by blast
qed

lemma tickBase_cycleDevicesFail:
  "\<exists>base. tickBase sampleRuntime cycleDevicesFail = Inr base \<and> b_wanUp base = None \<and>
          b_unifiError base = Some ''HTTP 401 Unauthorized'' \<and> pr_ok (b_probe base)"
proof -
  have "i_devices cycleDevicesFail = Inl ''HTTP 401 Unauthorized''"
    by (simp add: cycleDevicesFail_def)
  then show ?thesis
    using tickBase_devices_failed [of cycleDevicesFail "''HTTP 401 Unauthorized''" sampleRuntime]
    by (auto simp: cycleDevicesFail_def listingVerdict_def probeSucceeded_def)
qed

lemma tick_devicesFail_known:
  "state (o_monitor (tick sampleRuntime cycleDevicesFail knownMonitor)) = OK \<and>
   o_changes (tick sampleRuntime cycleDevicesFail knownMonitor) = []"
proof -
  obtain base where b: "tickBase sampleRuntime cycleDevicesFail = Inr base"
    "b_wanUp base = None" "pr_ok (b_probe base)"
    using tickBase_cycleDevicesFail by blast
  show ?thesis
    unfolding tick_returns [OF b(1)]
    using b(2,3)
    by (simp add: tickDecide_def Let_def setState_def pushHistory_def knownMonitor_def
        defaultMonitor_def newMonitor_def num_ge_def num_gt_def numOfNat_def)
qed

theorem controller_failure_cycle_witness:
  "i_devices cycleDevicesFail = Inl ''HTTP 401 Unauthorized'' \<and>
   (\<exists>base. tickBase sampleRuntime cycleDevicesFail = Inr base \<and>
      b_unifiError base = Some ''HTTP 401 Unauthorized'' \<and> b_wanUp base = None) \<and>
   state knownMonitor = OK \<and>
   state (o_monitor (tick sampleRuntime cycleDevicesFail knownMonitor)) \<noteq> UNKNOWN \<and>
   sm_state (l_sm (mainCycle sampleRuntime sampleEnv failedPass okLoop)) = UNKNOWN \<and>
   newPosted okLoop (mainCycle sampleRuntime sampleEnv failedPass okLoop) =
     [UnknownAlert ''HTTP 500 em /api/s/default/stat/device'' ''2025-01-01T00:03:00.000Z'']"
proof -
  have d: "i_devices cycleDevicesFail = Inl ''HTTP 401 Unauthorized''"
    "listingVerdict sampleRuntime (i_wanGroups cycleDevicesFail) = None"
    by (simp_all add: cycleDevicesFail_def)
  have c: "ci_controller failedPass = Inl ''HTTP 500 em /api/s/default/stat/device''"
    "ci_ts failedPass = ''2025-01-01T00:03:00.000Z''"
    by (simp_all add: failedPass_def)
  have s: "state knownMonitor = OK" "sm_state (l_sm okLoop) = OK"
    "ALERT_WEBHOOK sampleEnv \<noteq> []"
    by (simp_all add: knownMonitor_def okLoop_def sampleEnv_def)
  note T = controller_failure_cycle [of cycleDevicesFail "''HTTP 401 Unauthorized''" sampleRuntime
      knownMonitor failedPass "''HTTP 500 em /api/s/default/stat/device''" sampleEnv okLoop]
  have 1: "\<exists>base. tickBase sampleRuntime cycleDevicesFail = Inr base \<and>
             b_unifiError base = Some ''HTTP 401 Unauthorized'' \<and>
             b_wanUp base = listingVerdict sampleRuntime (i_wanGroups cycleDevicesFail)"
    using T d(1) by blast
  have 3: "state knownMonitor \<noteq> UNKNOWN \<longrightarrow>
            state (o_monitor (tick sampleRuntime cycleDevicesFail knownMonitor)) \<noteq> UNKNOWN"
    using T d(1) by blast
  have 4: "l_sm (mainCycle sampleRuntime sampleEnv failedPass okLoop) =
             (l_sm okLoop)\<lparr>sm_state := UNKNOWN\<rparr>"
    and 5: "newPosted okLoop (mainCycle sampleRuntime sampleEnv failedPass okLoop) =
             (if sm_state (l_sm okLoop) \<noteq> UNKNOWN \<and> ALERT_WEBHOOK sampleEnv \<noteq> []
              then [UnknownAlert ''HTTP 500 em /api/s/default/stat/device'' (ci_ts failedPass)]
              else [])"
    using T c(1) by blast+
  show ?thesis using 1 3 4 5 d c s by simp
qed

text \<open>
  The monitor is in state OK; the device query fails (and so does the listing); the probe
  succeeds. The state after the cycle is OK, not UNKNOWN, and no transition is announced.
\<close>

theorem state_not_forced_unknown_counterexample:
  "i_devices cycleDevicesFail = Inl ''HTTP 401 Unauthorized'' \<and>
   state knownMonitor = OK \<and>
   state (o_monitor (tick sampleRuntime cycleDevicesFail knownMonitor)) = OK \<and>
   o_changes (tick sampleRuntime cycleDevicesFail knownMonitor) = []"
  using tick_devicesFail_known by (simp add: cycleDevicesFail_def knownMonitor_def)

subsection \<open>Audit records\<close>

lemma onChange_log:
  "sv_log (onChange now c sv) =
     sv_log sv @
     (if c_next c = DOWN then [auditRecord now INTERNET_DOWN c]
      else if c_prev c = DOWN \<and> c_next c = OK then [auditRecord now INTERNET_RESTORED c]
      else [])"
  by (simp add: onChange_def broadcast_def appendEvent_def Let_def)

lemma a_kind_auditRecord: "a_kind (auditRecord now k c) = k"
  by (simp add: auditRecord_def)

lemma setState_result:
  "o_result (setState next base reason note m) = Inr r \<Longrightarrow>
   r_prev r = state m \<and> r_next r = next \<and>
   o_changes (setState next base reason note m) =
     (if r_prev r \<noteq> r_next r
      then [\<lparr>c_prev = r_prev r, c_next = r_next r, c_entry = r_entry r\<rparr>] else [])"
  by (auto simp: setState_def Let_def split: prod.splits option.splits)

lemma softEntry_result:
  "o_result (softEntry base reason note m) = Inr r \<Longrightarrow>
   r_prev r = state m \<and> r_next r = state m \<and> o_changes (softEntry base reason note m) = []"
  by (auto simp: softEntry_def Let_def pushHistory_def split: prod.splits option.splits if_splits)

lemma tickDecide_result:
  assumes "o_result (tickDecide rt base m) = Inr r"
  shows "r_prev r = state m \<and>
         o_changes (tickDecide rt base m) =
           (if r_prev r \<noteq> r_next r
            then [\<lparr>c_prev = r_prev r, c_next = r_next r, c_entry = r_entry r\<rparr>] else [])"
  using assms
  by (auto simp: tickDecide_def Let_def split: if_splits
      dest!: setState_result softEntry_result)

lemma tick_result:
  assumes "o_result (tick rt inp m) = Inr r"
  shows "r_prev r = state m \<and>
         o_changes (tick rt inp m) =
           (if r_prev r \<noteq> r_next r
            then [\<lparr>c_prev = r_prev r, c_next = r_next r, c_entry = r_entry r\<rparr>] else [])"
proof (cases "tickBase rt inp")
  case (Inl err)
  then show ?thesis using assms by (simp add: tick_def)
next
  case (Inr base)
  then show ?thesis using assms tickDecide_result [of rt base m r] by (simp add: tick_def)
qed

lemma serverCycle_log:
  assumes "o_result (tick rt inp (sv_monitor sv)) = Inr r"
  shows "sv_log (serverCycle rt now inp sv) =
           sv_log sv @
           (if r_prev r \<noteq> r_next r \<and> r_next r = DOWN
              then [auditRecord now INTERNET_DOWN
                      \<lparr>c_prev = r_prev r, c_next = r_next r, c_entry = r_entry r\<rparr>]
            else if r_prev r = DOWN \<and> r_next r = OK
              then [auditRecord now INTERNET_RESTORED
                      \<lparr>c_prev = r_prev r, c_next = r_next r, c_entry = r_entry r\<rparr>]
            else [])"
proof -
  have ch: "o_changes (tick rt inp (sv_monitor sv)) =
           (if r_prev r \<noteq> r_next r
            then [\<lparr>c_prev = r_prev r, c_next = r_next r, c_entry = r_entry r\<rparr>] else [])"
    using tick_result [OF assms] by blast
  show ?thesis
    using assms by (auto simp: serverCycle_def Let_def ch onChange_log broadcast_def)
qed

text \<open>
  Claim C7. Called for a transition from \<open>prev\<close> to \<open>next\<close>, the change handler appends
  exactly one audit record of kind INTERNET_DOWN when \<open>next\<close> is DOWN, exactly one of kind
  INTERNET_RESTORED when the transition goes from DOWN to OK, and none for any other
  transition (so none for a transition between OK, DEGRADED and UNKNOWN that does not
  leave DOWN for OK). Over a whole cycle of the service that returns, the log grows by
  one INTERNET_DOWN record if the cycle changed the state to DOWN, by one
  INTERNET_RESTORED record if it changed the state from DOWN to OK, and by nothing
  otherwise, in particular by nothing when the state did not change.
\<close>

theorem audit_only_down_and_restored:
  "map a_kind (newAudit sv (onChange now c sv)) =
     (if c_next c = DOWN then [INTERNET_DOWN]
      else if c_prev c = DOWN \<and> c_next c = OK then [INTERNET_RESTORED]
      else []) \<and>
   (o_result (tick rt inp (sv_monitor sv)) = Inr r \<longrightarrow>
     r_prev r = state (sv_monitor sv) \<and>
     map a_kind (newAudit sv (serverCycle rt now inp sv)) =
       (if r_prev r \<noteq> r_next r \<and> r_next r = DOWN then [INTERNET_DOWN]
        else if r_prev r = DOWN \<and> r_next r = OK then [INTERNET_RESTORED]
        else []))"
proof -
  have 1: "map a_kind (newAudit sv (onChange now c sv)) =
     (if c_next c = DOWN then [INTERNET_DOWN]
      else if c_prev c = DOWN \<and> c_next c = OK then [INTERNET_RESTORED]
      else [])"
    by (simp add: newAudit_def onChange_log a_kind_auditRecord)
  have 2: "map a_kind (newAudit sv (serverCycle rt now inp sv)) =
       (if r_prev r \<noteq> r_next r \<and> r_next r = DOWN then [INTERNET_DOWN]
        else if r_prev r = DOWN \<and> r_next r = OK then [INTERNET_RESTORED]
        else [])"
    if "o_result (tick rt inp (sv_monitor sv)) = Inr r"
    unfolding newAudit_def serverCycle_log [OF that] by (auto simp: a_kind_auditRecord)
  have 3: "r_prev r = state (sv_monitor sv)"
    if "o_result (tick rt inp (sv_monitor sv)) = Inr r"
    using tick_result [OF that] by blast
  show ?thesis using 1 2 3 by blast
qed

lemma tick_linkDown_default:
  "\<exists>r. o_result (tick sampleRuntime cycleLinkDown defaultMonitor) = Inr r \<and>
       r_prev r = UNKNOWN \<and> r_next r = DOWN"
proof -
  have d: "deviceVerdict sampleRuntime (i_devices cycleLinkDown) = Inr (Some False)"
    by (simp add: cycleLinkDown_def)
  obtain base where b: "tickBase sampleRuntime cycleLinkDown = Inr base"
    "b_wanUp base = Some False"
    using tickBase_returns [OF d] by (auto simp: cycleLinkDown_def)
  show ?thesis
    unfolding tick_returns [OF b(1)]
    using b(2)
    by (simp add: tickDecide_def Let_def setState_def pushHistory_def
        defaultMonitor_def newMonitor_def num_gt_def numOfNat_def)
qed

theorem audit_only_down_and_restored_witness:
  "map a_kind (newAudit \<lparr>sv_monitor = defaultMonitor, sv_sent = [], sv_log = []\<rparr>
      (serverCycle sampleRuntime ''2025-01-01T00:01:00.100Z'' cycleLinkDown
         \<lparr>sv_monitor = defaultMonitor, sv_sent = [], sv_log = []\<rparr>)) = [INTERNET_DOWN] \<and>
   map a_kind (newAudit \<lparr>sv_monitor = defaultMonitor, sv_sent = [], sv_log = []\<rparr>
      (onChange ''2025-01-01T00:05:00.000Z''
         \<lparr>c_prev = DEGRADED, c_next = UNKNOWN,
          c_entry = \<lparr>e_base = baseDevicesFail, e_state = UNKNOWN,
                     e_reason = ''PROBE_OK'', e_note = None\<rparr>\<rparr>
         \<lparr>sv_monitor = defaultMonitor, sv_sent = [], sv_log = []\<rparr>)) = []"
proof -
  let ?sv = "\<lparr>sv_monitor = defaultMonitor, sv_sent = [], sv_log = []\<rparr>"
  let ?c = "\<lparr>c_prev = DEGRADED, c_next = UNKNOWN,
          c_entry = \<lparr>e_base = baseDevicesFail, e_state = UNKNOWN,
                     e_reason = ''PROBE_OK'', e_note = None\<rparr>\<rparr>"
  obtain r where r: "o_result (tick sampleRuntime cycleLinkDown (sv_monitor ?sv)) = Inr r"
    "r_prev r = UNKNOWN" "r_next r = DOWN"
    using tick_linkDown_default by auto
  have a: "map a_kind (newAudit ?sv (serverCycle sampleRuntime ''2025-01-01T00:01:00.100Z''
              cycleLinkDown ?sv)) = [INTERNET_DOWN]"
    using audit_only_down_and_restored [of ?sv "''2025-01-01T00:01:00.100Z''" ?c sampleRuntime
        cycleLinkDown r] r
    by simp
  have b: "map a_kind (newAudit ?sv (onChange ''2025-01-01T00:05:00.000Z'' ?c ?sv)) = []"
    using audit_only_down_and_restored [of ?sv "''2025-01-01T00:05:00.000Z''" ?c sampleRuntime
        cycleLinkDown r]
    by simp
  show ?thesis using a b by blast
qed

subsection \<open>Re-authentication in the controller client\<close>

lemma mergeCookies_session: "mergeCookies (rs_setCookies sessionGranted) = ''TOKEN=abc''"
  by (simp add: mergeCookies_def sessionGranted_def)

lemma loginUniFiOS_granted:
  "loginUniFiOS alwaysUnauthorized cr base c =
     (c\<lparr>requests := requests c @ [\<lparr>rq_method = ''POST'', rq_url = base @ ''/api/auth/login'',
                                    rq_cookie = None, rq_body = Some (loginBody cr)\<rparr>],
        cookie := ''TOKEN=abc'', effectiveMode := Some ''unifios'',
        baseUrlEffective := Some base\<rparr>, None)"
  by (simp add: loginUniFiOS_def fetch_def alwaysUnauthorized_def mergeCookies_session Let_def)
     (simp add: sessionGranted_def res_ok_def)

lemma loginLegacy_granted:
  "loginLegacy alwaysUnauthorized cr base c =
     (c\<lparr>requests := requests c @ [\<lparr>rq_method = ''POST'', rq_url = base @ ''/api/login'',
                                    rq_cookie = None, rq_body = Some (loginBody cr)\<rparr>],
        cookie := ''TOKEN=abc'', effectiveMode := Some ''legacy'',
        baseUrlEffective := Some base\<rparr>, None)"
  by (simp add: loginLegacy_def fetch_def alwaysUnauthorized_def mergeCookies_session Let_def)
     (simp add: sessionGranted_def res_ok_def)

lemma ensureLogin_alwaysUnauthorized:
  "\<exists>c'. ensureLogin alwaysUnauthorized cr c = (c', None)"
  by (simp add: ensureLogin_def loginUniFiOS_granted loginLegacy_granted)

lemma request_never_returns:
  "request alwaysUnauthorized cr path ''GET'' body c = None"
proof -
  have key: "s0 = alwaysUnauthorized \<and> m0 = ''GET'' \<longrightarrow> False"
    if r: "request s0 cr0 p0 m0 b0 c0 = Some y0" for s0 cr0 p0 m0 b0 c0 y0
  proof (rule request.raw_induct
      [where P = "\<lambda>s cr p m b c y. s = alwaysUnauthorized \<and> m = ''GET'' \<longrightarrow> False", OF _ r])
    fix f :: "controller \<Rightarrow> credentials \<Rightarrow> string \<Rightarrow> string \<Rightarrow> json option \<Rightarrow> unifi_client
                \<Rightarrow> (unifi_client \<times> (api_error + json)) option"
    fix s cr p m b c y
    assume IH: "\<And>s' cr' p' m' b' c' y'. f s' cr' p' m' b' c' = Some y' \<Longrightarrow>
                  s' = alwaysUnauthorized \<and> m' = ''GET'' \<longrightarrow> False"
    assume unfolded: "(case ensureLogin s cr c of
      (c1, None) \<Rightarrow>
        (case fetch s
              \<lparr>rq_method = m,
                 rq_url = (case baseUrlEffective c1 of None \<Rightarrow> ''null'' | Some b \<Rightarrow> b) @ p,
                 rq_cookie = Some (cookie c1), rq_body = b\<rparr>
              c1 of
        (c2, Inl e) \<Rightarrow> Some (c2, Inl (FetchFailed e))
        | (c2, Inr res) \<Rightarrow>
            if rs_status res = 401 \<or> rs_status res = 403
            then (case ensureLogin s cr (c2\<lparr>cookie := []\<rparr>) of
                 (c3, None) \<Rightarrow> f s cr p m b c3
                 | (c3, Some e) \<Rightarrow> Some (c3, Inl e))
            else if \<not> res_ok res
                 then Some (c2, Inl (HttpError (rs_status res) p (rs_text res)))
                 else (case rs_json res of None \<Rightarrow> Some (c2, Inl InvalidJson)
                      | Some j \<Rightarrow> Some (c2, Inr j)))
      | (c1, Some e) \<Rightarrow> Some (c1, Inl e)) = Some y"
    show "s = alwaysUnauthorized \<and> m = ''GET'' \<longrightarrow> False"
    proof
      assume a: "s = alwaysUnauthorized \<and> m = ''GET''"
      obtain c1 where c1: "ensureLogin s cr c = (c1, None)"
        using ensureLogin_alwaysUnauthorized a by blast
      let ?rq = "\<lparr>rq_method = m,
                   rq_url = (case baseUrlEffective c1 of None \<Rightarrow> ''null'' | Some b \<Rightarrow> b) @ p,
                   rq_cookie = Some (cookie c1), rq_body = b\<rparr>"
      have f: "fetch s ?rq c1 = (c1\<lparr>requests := requests c1 @ [?rq]\<rparr>, Inr unauthorized)"
        using a by (simp add: fetch_def alwaysUnauthorized_def)
      obtain c3 where c3:
        "ensureLogin s cr (c1\<lparr>requests := requests c1 @ [?rq], cookie := []\<rparr>) = (c3, None)"
        using ensureLogin_alwaysUnauthorized a by blast
      have "f s cr p m b c3 = Some y"
        using unfolded by (simp add: c1 f c3 unauthorized_def)
      then show False using IH a by blast
    qed
  qed
  show ?thesis
  proof (cases "request alwaysUnauthorized cr path ''GET'' body c")
    case None
    then show ?thesis .
  next
    case (Some y)
    then show ?thesis using key by blast
  qed
qed

lemma request_three_attempts:
  "map_option (\<lambda>(c', r). (getAttempts c', r))
     (request unauthorizedTwice sampleCredentials ''/api/s/default/stat/device'' ''GET'' None
        sampleClient)
   = Some (3, Inr (JObj [(''data'', JArr [])]))"
  apply (subst request.simps)
  apply (simp add: ensureLogin_def loginUniFiOS_def fetch_def sampleClient_def
      newUniFiClient_def unauthorizedTwice_def sessionGranted_def unauthorized_def deviceList_def
      res_ok_def mergeCookies_def Let_def)
  apply (subst request.simps)
  apply (simp add: ensureLogin_def loginUniFiOS_def fetch_def sampleClient_def
      newUniFiClient_def unauthorizedTwice_def sessionGranted_def unauthorized_def deviceList_def
      res_ok_def mergeCookies_def Let_def)
  apply (subst request.simps)
  apply (simp add: ensureLogin_def loginUniFiOS_def fetch_def sampleClient_def
      newUniFiClient_def unauthorizedTwice_def sessionGranted_def unauthorized_def deviceList_def
      res_ok_def mergeCookies_def Let_def getAttempts_def)
  done

text \<open>
  Claim C4 fails on the code. Against a controller that grants every login and answers
  every other request with 401, \<open>request\<close> never returns, from any client state: each 401
  clears the session, logs in again and calls \<open>request\<close> afresh, with nothing that counts
  the retries. And against a controller that refuses only the first two attempts, the call
  returns the body of the third attempt: three attempts of the original call, where the
  claim allows two.
\<close>

theorem request_retries_without_bound:
  "request alwaysUnauthorized cr path ''GET'' body c = None \<and>
   map_option (\<lambda>(c', r). (getAttempts c', r))
     (request unauthorizedTwice sampleCredentials ''/api/s/default/stat/device'' ''GET'' None
        sampleClient)
   = Some (3, Inr (JObj [(''data'', JArr [])]))"
  using request_never_returns request_three_attempts by blast

subsection \<open>Merging ticks into the observer's history\<close>

lemma tickUpdate_has:
  "list_ex (\<lambda>h. dedupKey rt h = dedupKey rt (tm_entry msg)) (sp_history (tickUpdate rt msg prev))"
  by (cases prev) (auto simp: tickUpdate_def Let_def list_ex_iff)

text \<open>
  Claim C8. Applying the same tick message a second time, right after the first, leaves
  the page's data (the local history, and with it the displayed state and label) exactly
  as the first application left it, from any data including none: after the first
  application the history holds an entry with the message's dedup key, so the second one
  drops the entry.
\<close>

theorem tickUpdate_idempotent:
  "tickUpdate rt msg (Some (tickUpdate rt msg prev)) = tickUpdate rt msg prev \<and>
   sp_history (tickUpdate rt msg (Some (tickUpdate rt msg prev))) =
     sp_history (tickUpdate rt msg prev)"
proof -
  let ?d = "tickUpdate rt msg prev"
  have h: "list_ex (\<lambda>h. dedupKey rt h = dedupKey rt (tm_entry msg)) (sp_history ?d)"
    by (rule tickUpdate_has)
  have 1: "sp_history (tickUpdate rt msg (Some ?d)) = sp_history ?d"
    using h by (simp add: tickUpdate_def [of rt msg "Some ?d"] Let_def)
  have 2: "sp_state (tickUpdate rt msg (Some ?d)) = sp_state ?d"
    by (simp add: tickUpdate_def Let_def)
  have 3: "sp_label (tickUpdate rt msg (Some ?d)) = sp_label ?d"
    by (simp add: tickUpdate_def Let_def split: option.splits)
  show ?thesis using 1 2 3 by (simp add: status_payload.equality)
qed

lemma dedupKey_item:
  "dedupKey sampleRuntime (item ts st None) = ts @ ''|'' @ st @ ''|x''"
  by (simp add: dedupKey_def item_def)

lemma dedupKey_item_ms:
  "dedupKey sampleRuntime (item ts st (Some (Fin (of_nat n)))) = ts @ ''|'' @ st @ ''|'' @ showNat n"
  by (simp add: dedupKey_def item_def sampleRuntime_def sampleNumberToString_def)

theorem tickUpdate_idempotent_witness:
  "map hi_ts (sp_history (tickUpdate sampleRuntime freshTick (Some sampleData)))
     = [''t4'', ''t3'', ''t2'', ''t1''] \<and>
   tickUpdate sampleRuntime freshTick (Some (tickUpdate sampleRuntime freshTick (Some sampleData)))
     = tickUpdate sampleRuntime freshTick (Some sampleData)"
proof -
  have k: "dedupKey sampleRuntime (item ''t4'' ''OK'' (Some (Fin 9))) = ''t4|OK|9''"
    "dedupKey sampleRuntime (item ''t3'' ''OK'' (Some (Fin 12))) = ''t3|OK|12''"
    "dedupKey sampleRuntime (item ''t2'' ''OK'' (Some (Fin 15))) = ''t2|OK|15''"
    using dedupKey_item_ms [of "''t4''" "''OK''" 9] dedupKey_item_ms [of "''t3''" "''OK''" 12]
      dedupKey_item_ms [of "''t2''" "''OK''" 15]
    by (simp_all add: showNat.simps)
  have "map hi_ts (sp_history (tickUpdate sampleRuntime freshTick (Some sampleData)))
     = [''t4'', ''t3'', ''t2'', ''t1'']"
    by (simp add: tickUpdate_def Let_def freshTick_def sampleData_def k dedupKey_item)
       (simp add: item_def)
  then show ?thesis
    using tickUpdate_idempotent [of sampleRuntime freshTick "Some sampleData"] by blast
qed

text \<open>
  Claim C10. If the dedup key of the incoming entry equals the key of any entry of the
  local history, wherever it stands, the history is left as it is; the displayed state
  becomes the message's state (the entry's when the message has none) and the label the
  message's label (the old one when the message has none).
\<close>

theorem tickUpdate_dedup_anywhere:
  assumes "h \<in> set (sp_history d)" and "dedupKey rt h = dedupKey rt (tm_entry msg)"
  shows "sp_history (tickUpdate rt msg (Some d)) = sp_history d \<and>
         sp_state (tickUpdate rt msg (Some d)) =
           (case tm_state msg of Some s \<Rightarrow> s | None \<Rightarrow> hi_state (tm_entry msg)) \<and>
         sp_label (tickUpdate rt msg (Some d)) =
           (case tm_label msg of Some l \<Rightarrow> l | None \<Rightarrow> sp_label d)"
  using assms by (auto simp: tickUpdate_def Let_def list_ex_iff split: option.splits)

theorem tickUpdate_dedup_anywhere_witness:
  "item ''t1'' ''DEGRADED'' None \<in> set (sp_history sampleData) \<and>
   item ''t1'' ''DEGRADED'' None \<noteq> hd (sp_history sampleData) \<and>
   sp_history (tickUpdate sampleRuntime replayedTick (Some sampleData)) = sp_history sampleData \<and>
   sp_state (tickUpdate sampleRuntime replayedTick (Some sampleData)) = ''OK'' \<and>
   sp_label (tickUpdate sampleRuntime replayedTick (Some sampleData)) = ''OK''"
proof -
  have m: "item ''t1'' ''DEGRADED'' None \<in> set (sp_history sampleData)"
    "item ''t1'' ''DEGRADED'' None \<noteq> hd (sp_history sampleData)"
    by (simp_all add: sampleData_def item_def)
  have e: "tm_entry replayedTick = item ''t1'' ''DEGRADED'' None"
    "tm_state replayedTick = Some ''OK''" "tm_label replayedTick = None"
    "sp_label sampleData = ''OK''"
    by (simp_all add: replayedTick_def sampleData_def)
  show ?thesis
    using tickUpdate_dedup_anywhere [of "item ''t1'' ''DEGRADED'' None" sampleData sampleRuntime
        replayedTick] m e
    by simp
qed

subsection \<open>Reconnection backoff\<close>

lemma backoffDelay_mono: "a \<le> b \<Longrightarrow> backoffDelay a \<le> backoffDelay b"
  unfolding backoffDelay_def by (simp add: min_le_iff_disj power_increasing)

lemma backoffDelay_cap: "backoffDelay a \<le> maxDelayMs"
  unfolding backoffDelay_def by simp

lemma ws_onclose_alive:
  "aliveRef c \<Longrightarrow> ws_onclose c =
     c\<lparr>wsRetryRef := min 8 (wsRetryRef c + 1), wsStatus := Reconnecting,
       timers := timers c @ [backoffDelay (min 8 (wsRetryRef c + 1))]\<rparr>"
  by (simp add: ws_onclose_def scheduleReconnect_def Let_def)

lemma failures_not_alive: "\<not> aliveRef c \<Longrightarrow> failures n c = c"
  by (induction n) (simp_all add: ws_onclose_def)

lemma failures_timers:
  "aliveRef c \<Longrightarrow> timers (failures n c) =
     timers c @ map (\<lambda>k. backoffDelay (min 8 (wsRetryRef c + Suc k))) [0..<n]"
proof (induction n arbitrary: c)
  case 0
  then show ?case by simp
next
  case (Suc n)
  let ?c1 = "ws_onclose c"
  have alive: "aliveRef ?c1" using Suc.prems by (simp add: ws_onclose_alive)
  have r: "wsRetryRef ?c1 = min 8 (wsRetryRef c + 1)" using Suc.prems by (simp add: ws_onclose_alive)
  have t: "timers ?c1 = timers c @ [backoffDelay (min 8 (wsRetryRef c + 1))]"
    using Suc.prems by (simp add: ws_onclose_alive)
  have m: "\<And>k. min 8 (min 8 (wsRetryRef c + 1) + Suc k) = min (8::nat) (wsRetryRef c + Suc (Suc k))"
    by simp
  have "timers (failures (Suc n) c) = timers (failures n ?c1)" by simp
  also have "\<dots> = timers ?c1 @ map (\<lambda>k. backoffDelay (min 8 (wsRetryRef ?c1 + Suc k))) [0..<n]"
    by (rule Suc.IH [OF alive])
  also have "\<dots> = timers c @ map (\<lambda>k. backoffDelay (min 8 (wsRetryRef c + Suc k))) [0..<Suc n]"
    unfolding r t m by (simp add: upt_conv_Cons map_Suc_upt [symmetric] del: upt_Suc)
  finally show ?case .
qed

lemma newDelays_alive:
  "aliveRef c \<Longrightarrow> newDelays n c = map (\<lambda>k. backoffDelay (min 8 (wsRetryRef c + Suc k))) [0..<n]"
  by (simp add: newDelays_def failures_timers)

lemma newDelays_not_alive: "\<not> aliveRef c \<Longrightarrow> newDelays n c = []"
  by (simp add: newDelays_def failures_not_alive)

lemma newDelays_sorted: "sorted (newDelays n c)"
proof (cases "aliveRef c")
  case True
  have "sorted (map (\<lambda>k. backoffDelay (min 8 (wsRetryRef c + Suc k))) [0..<n])"
    by (rule sorted_map_mono) (auto intro!: monoI backoffDelay_mono simp: mono_on_def)
  then show ?thesis using True by (simp add: newDelays_alive)
next
  case False
  then show ?thesis by (simp add: newDelays_not_alive)
qed

lemma newDelays_cap: "d \<in> set (newDelays n c) \<Longrightarrow> d \<le> maxDelayMs"
  by (cases "aliveRef c") (auto simp: newDelays_alive newDelays_not_alive backoffDelay_cap)

lemma failures_alive: "aliveRef (failures n c) = aliveRef c"
  by (induction n arbitrary: c) (simp_all add: ws_onclose_def scheduleReconnect_def Let_def)

text \<open>
  Claim C9, as amended. Across a run of \<open>n\<close> consecutive connection losses, starting from any
  connection state, the delays armed by \<open>scheduleReconnect\<close> are non-decreasing from one
  attempt to the next and none exceeds the cap of 15000 ms. A successful open puts the
  attempt counter back to zero, and the delay armed by the next loss is the first delay of
  the schedule again: twice the base delay (1000 ms for the base of 500 ms), because the
  counter is incremented before the delay is computed.
\<close>

theorem reconnect_backoff:
  "sorted (newDelays n c) \<and> (\<forall>d \<in> set (newDelays n c). d \<le> maxDelayMs) \<and>
   wsRetryRef (ws_onopen (failures n c)) = 0 \<and>
   (aliveRef c \<longrightarrow> newDelays 1 (ws_onopen (failures n c)) = [2 * baseDelayMs])"
proof -
  have "aliveRef c \<Longrightarrow> newDelays 1 (ws_onopen (failures n c)) = [2 * baseDelayMs]"
  proof -
    assume a: "aliveRef c"
    have "aliveRef (ws_onopen (failures n c))" using a by (simp add: ws_onopen_def failures_alive)
    then show ?thesis
      by (simp add: newDelays_alive ws_onopen_def backoffDelay_def baseDelayMs_def maxDelayMs_def)
  qed
  then show ?thesis
    using newDelays_sorted newDelays_cap by (simp add: ws_onopen_def)
qed

theorem reconnect_backoff_witness:
  "newDelays 6 freshConn = [1000, 2000, 4000, 8000, 15000, 15000] \<and>
   newDelays 1 (ws_onopen (failures 6 freshConn)) = [1000]"
  using reconnect_backoff [of 6 freshConn]
  by (simp add: newDelays_alive freshConn_def backoffDelay_def baseDelayMs_def maxDelayMs_def
      upt_conv_Cons)

text \<open>
  The delay armed after a successful open is not the base delay of 500 ms: the first loss
  after the reset already doubles it.
\<close>

theorem reconnect_base_delay_counterexample:
  "newDelays 1 (ws_onopen (failures 3 freshConn)) \<noteq> [baseDelayMs]"
proof -
  have "aliveRef (ws_onopen (failures 3 freshConn))"
    by (simp add: ws_onopen_def failures_alive freshConn_def)
  then show ?thesis
    by (simp add: newDelays_alive ws_onopen_def backoffDelay_def baseDelayMs_def maxDelayMs_def)
qed

end
